theory Spec2Isabelle
  imports Complex_Main
begin

section \<open>Account pool maintenance: data model\<close>

text \<open>
  The development embeds \<^verbatim>\<open>pool_maintenance.py\<close> and the constants of
  \<^verbatim>\<open>config.py\<close> it reads.

  Conventions of the embedding.
  \<^item> A \<^verbatim>\<open>datetime\<close> is an integer number of microseconds on the naive local time
    line; \<^verbatim>\<open>timedelta(hours=h)\<close> is \<open>h * 3600000000\<close> and \<^verbatim>\<open>timedelta(days=d)\<close> is
    \<open>d * 86400000000\<close>. The store keeps the text of \<^verbatim>\<open>isoformat()\<close>, whose text order is
    the order of the instants, so SQL's \<^verbatim>\<open><\<close> on that column is \<open><\<close> on the integers
    and SQL \<^verbatim>\<open>NULL\<close> is \<open>None\<close>.
  \<^item> \<^verbatim>\<open>time.time()\<close> and the numbers of a JSON document are rationals (the rounding of
    Python's floats is not modelled).
  \<^item> A text column that is \<^verbatim>\<open>NULL\<close> and one that is empty are both the empty string:
    the program only ever tests such a value for truthiness.
\<close>

record account =
  row_id :: "nat option"
  email :: string
  email_password :: "string option"
  local_id :: string
  id_token :: string
  refresh_token :: string
  status :: string
  created_at :: "int option"
  last_used :: "int option"
  last_refresh_time :: "int option"
  use_count :: int
  proxy_info :: "string option"
  user_agent :: "string option"

text \<open>
  The values \<^verbatim>\<open>json.loads\<close> produces, with Python's truthiness and arithmetic on them.
  An object is the list of its entries, one per key, as the dict holds them.
\<close>

datatype json =
    JNull
  | JBool bool
  | JNum rat
  | JStr string
  | JArr "json list"
  | JObj "(string \<times> json) list"

fun truthy :: "json \<Rightarrow> bool" where
  "truthy JNull = False"
| "truthy (JBool b) = b"
| "truthy (JNum r) = (r \<noteq> 0)"
| "truthy (JStr s) = (s \<noteq> [])"
| "truthy (JArr xs) = (xs \<noteq> [])"
| "truthy (JObj kv) = (kv \<noteq> [])"

text \<open>The numeric value of an operand of \<^verbatim>\<open>-\<close>; \<open>None\<close> is Python's \<^verbatim>\<open>TypeError\<close>.\<close>

fun num_of :: "json \<Rightarrow> rat option" where
  "num_of (JNum r) = Some r"
| "num_of (JBool b) = Some (if b then 1 else 0)"
| "num_of _ = None"

text \<open>\<^verbatim>\<open>d.get(k, default)\<close>; \<open>None\<close> is the \<^verbatim>\<open>AttributeError\<close> of a value that is no dict.\<close>

fun py_get :: "json \<Rightarrow> string \<Rightarrow> json \<Rightarrow> json option" where
  "py_get (JObj kv) k d = Some (case map_of kv k of None \<Rightarrow> d | Some v \<Rightarrow> v)"
| "py_get _ k d = None"

subsection \<open>Configuration\<close>

definition TOKEN_REFRESH_HOURS :: int where
  "TOKEN_REFRESH_HOURS = 1"

definition MAINTENANCE_CHECK_INTERVAL :: int where
  "MAINTENANCE_CHECK_INTERVAL = 120"

definition MIN_QUOTA_THRESHOLD :: rat where
  "MIN_QUOTA_THRESHOLD = 10"

definition MIN_POOL_SIZE :: nat where
  "MIN_POOL_SIZE = 25"

definition timedelta_hours :: "int \<Rightarrow> int" where
  "timedelta_hours h = h * 3600000000"

definition timedelta_days :: "int \<Rightarrow> int" where
  "timedelta_days d = d * 86400000000"

section \<open>DatabaseManager: what each SQL statement does to the rows\<close>

text \<open>
  The \<^verbatim>\<open>accounts\<close> table is the list of its rows. Each function below is the effect of
  the statement when sqlite3 executes it; a statement that raises instead is a branch of
  the callers further down.
\<close>

definition get_all_accounts :: "string option \<Rightarrow> account list \<Rightarrow> account list" where
  "get_all_accounts st rows =
     (case st of
        None \<Rightarrow> rows
      | Some s \<Rightarrow> if s \<noteq> [] then filter (\<lambda>a. status a = s) rows else rows)"

definition get_account_by_email :: "string \<Rightarrow> account list \<Rightarrow> account option" where
  "get_account_by_email e rows = find (\<lambda>a. email a = e) rows"

definition update_account_token ::
  "string \<Rightarrow> string \<Rightarrow> string option \<Rightarrow> int \<Rightarrow> account list \<Rightarrow> account list" where
  "update_account_token e tok rt now rows =
     map (\<lambda>a. if email a = e then
                 (case rt of
                    Some r \<Rightarrow>
                      if r \<noteq> [] then
                        a\<lparr>id_token := tok, refresh_token := r, last_refresh_time := Some now\<rparr>
                      else a\<lparr>id_token := tok, last_refresh_time := Some now\<rparr>
                  | None \<Rightarrow> a\<lparr>id_token := tok, last_refresh_time := Some now\<rparr>)
               else a) rows"

definition update_account_status :: "string \<Rightarrow> string \<Rightarrow> account list \<Rightarrow> account list" where
  "update_account_status e s rows = map (\<lambda>a. if email a = e then a\<lparr>status := s\<rparr> else a) rows"

text \<open>
  \<^verbatim>\<open>DELETE FROM accounts WHERE status = 'expired' AND last_refresh_time < ?\<close> with the
  cutoff \<^verbatim>\<open>datetime.now() - timedelta(days=days)\<close>. A row whose \<^verbatim>\<open>last_refresh_time\<close>
  is \<^verbatim>\<open>NULL\<close> does not satisfy the comparison.
\<close>

definition purge_row :: "int \<Rightarrow> account \<Rightarrow> bool" where
  "purge_row cutoff_date a =
     (status a = ''expired'' \<and>
      (case last_refresh_time a of None \<Rightarrow> False | Some t \<Rightarrow> t < cutoff_date))"

definition cleanup_expired_accounts :: "int \<Rightarrow> int \<Rightarrow> account list \<Rightarrow> nat \<times> account list" where
  "cleanup_expired_accounts now days rows =
     (let cutoff_date = now - timedelta_days days;
          deleted_count = length (filter (purge_row cutoff_date) rows)
      in (deleted_count, filter (\<lambda>a. \<not> purge_row cutoff_date a) rows))"

section \<open>TokenRefreshService: freshness and cooldown\<close>

text \<open>\<^verbatim>\<open>str.split('.')\<close>: the segments between the dots, at least one.\<close>

fun split_dot :: "string \<Rightarrow> string list" where
  "split_dot [] = [[]]"
| "split_dot (c # cs) =
     (if c = CHR ''.'' then [] # split_dot cs
      else (case split_dot cs of [] \<Rightarrow> [[c]] | p # ps \<Rightarrow> (c # p) # ps))"

text \<open>
  \<^verbatim>\<open>is_token_expired\<close>. The library call
  \<^verbatim>\<open>json.loads(base64.urlsafe_b64decode(s).decode('utf-8'))\<close> is the parameter \<open>loads\<close>;
  it is \<open>None\<close> where any of the three steps raises. Every exception inside the
  \<^verbatim>\<open>try\<close> (a payload that is no dict, an \<^verbatim>\<open>exp\<close> that cannot be subtracted from) ends in
  the \<^verbatim>\<open>except\<close> branch, which returns \<^verbatim>\<open>True\<close>.
\<close>

definition is_token_expired ::
  "(string \<Rightarrow> json option) \<Rightarrow> rat \<Rightarrow> string \<Rightarrow> int \<Rightarrow> bool" where
  "is_token_expired loads now tok buffer_minutes =
     (if tok = [] then True
      else
        let parts = split_dot tok in
        if length parts \<noteq> 3 then True
        else
          let payload_part = parts ! 1;
              padded = payload_part @ replicate (4 - length payload_part mod 4) (CHR ''='')
          in (case loads padded of
                None \<Rightarrow> True
              | Some payload \<Rightarrow>
                  (case py_get payload ''exp'' JNull of
                     None \<Rightarrow> True
                   | Some exp_timestamp \<Rightarrow>
                       if \<not> truthy exp_timestamp then True
                       else (case num_of exp_timestamp of
                               None \<Rightarrow> True
                             | Some e \<Rightarrow> e - now \<le> of_int (buffer_minutes * 60)))))"

text \<open>The default of the parameter \<^verbatim>\<open>buffer_minutes\<close>, which the only call site takes.\<close>

definition buffer_minutes_default :: int where
  "buffer_minutes_default = 10"

definition can_refresh_token :: "int \<Rightarrow> account \<Rightarrow> bool" where
  "can_refresh_token now a =
     (case last_refresh_time a of
        None \<Rightarrow> True
      | Some t \<Rightarrow> now - t \<ge> timedelta_hours TOKEN_REFRESH_HOURS)"

section \<open>The environment of one credential's verification\<close>

text \<open>
  Everything outside the program is a parameter. Processing one credential reads the
  clocks, talks to two services and to the store; a \<open>world\<close> fixes what each of them
  answers while that credential is processed. A verification pass takes one world per
  position of the list it walks, so the clocks and the services may answer differently
  from one credential to the next.

  \<^item> \<open>loads\<close>: the decoder of the payload segment (see \<open>is_token_expired\<close>).
  \<^item> \<open>time_time\<close>: \<^verbatim>\<open>time.time()\<close>; \<open>datetime_now\<close>: \<^verbatim>\<open>datetime.now()\<close> in
    \<^verbatim>\<open>can_refresh_token\<close>; \<open>datetime_now_stamp\<close>: the same clock when
    \<^verbatim>\<open>update_account_token\<close> stamps the row.
  \<^item> \<open>refresh_firebase_token\<close>: the exchange with the token service. The source function
    catches every exception itself and returns
    \<^verbatim>\<open>Tuple[bool, Optional[str], Optional[str]]\<close>; it is taken at that type.
  \<^item> \<open>client_post\<close>: the answer of \<^verbatim>\<open>client.post\<close> to the quota query sent with a
    given bearer token.
  \<^item> \<open>raises\<close>: whether the sqlite3 statement at a call site raises. Inside one
    iteration each call site is reached at most once.
\<close>

datatype exn = Sqlite3Error

datatype http_result =
    Raised
  | Response int "json option"

datatype db_call =
    GetByEmail
  | UpdateToken
  | UpdateStatus
  | HandlerUpdateStatus

record world =
  loads :: "string \<Rightarrow> json option"
  time_time :: rat
  datetime_now :: int
  refresh_firebase_token :: "string \<Rightarrow> bool \<times> string option \<times> string option"
  datetime_now_stamp :: int
  client_post :: "string \<Rightarrow> http_result"
  raises :: "db_call \<Rightarrow> bool"

text \<open>
  The pool is the table together with the chronological record of the calls that left
  the process: requests to the two services and statements sent to the store (recorded
  when issued, whether or not they then raise).
\<close>

datatype event =
    RefreshPost string
  | QuotaPost string
  | DbGetAll "string option"
  | DbGetByEmail string
  | DbUpdateToken string
  | DbUpdateStatus string string
  | DbGetStatistics
  | DbCleanup int

record pool =
  rows :: "account list"
  events :: "event list"

definition emit :: "event \<Rightarrow> pool \<Rightarrow> pool" where
  "emit e st = st\<lparr>events := events st @ [e]\<rparr>"

definition db_get_account_by_email ::
  "bool \<Rightarrow> string \<Rightarrow> pool \<Rightarrow> (exn + account option) \<times> pool" where
  "db_get_account_by_email fails e st =
     (let st1 = emit (DbGetByEmail e) st
      in if fails then (Inl Sqlite3Error, st1)
         else (Inr (get_account_by_email e (rows st1)), st1))"

definition db_update_account_token ::
  "bool \<Rightarrow> string \<Rightarrow> string \<Rightarrow> string option \<Rightarrow> int \<Rightarrow> pool \<Rightarrow> (exn + unit) \<times> pool" where
  "db_update_account_token fails e tok rt now st =
     (let st1 = emit (DbUpdateToken e) st
      in if fails then (Inl Sqlite3Error, st1)
         else (Inr (), st1\<lparr>rows := update_account_token e tok rt now (rows st1)\<rparr>))"

definition db_update_account_status ::
  "bool \<Rightarrow> string \<Rightarrow> string \<Rightarrow> pool \<Rightarrow> (exn + unit) \<times> pool" where
  "db_update_account_status fails e s st =
     (let st1 = emit (DbUpdateStatus e s) st
      in if fails then (Inl Sqlite3Error, st1)
         else (Inr (), st1\<lparr>rows := update_account_status e s (rows st1)\<rparr>))"

section \<open>TokenRefreshService.refresh_account_if_needed\<close>

definition refresh_account_if_needed :: "world \<Rightarrow> account \<Rightarrow> pool \<Rightarrow> (exn + bool) \<times> pool" where
  "refresh_account_if_needed w a st =
     (if \<not> is_token_expired (loads w) (time_time w) (id_token a) buffer_minutes_default
      then (Inr True, st)
      else if \<not> can_refresh_token (datetime_now w) a then (Inr True, st)
      else
        (case refresh_firebase_token w (refresh_token a) of
           (success, new_id_token, new_refresh_token) \<Rightarrow>
             let st1 = emit (RefreshPost (refresh_token a)) st in
             if success \<and> (case new_id_token of None \<Rightarrow> False | Some t \<Rightarrow> t \<noteq> []) then
               (case db_update_account_token (raises w UpdateToken) (email a)
                       (the new_id_token) new_refresh_token (datetime_now_stamp w) st1 of
                  (Inl e, st2) \<Rightarrow> (Inl e, st2)
                | (Inr u, st2) \<Rightarrow> (Inr True, st2))
             else
               (case db_update_account_status (raises w UpdateStatus) (email a) ''expired'' st1 of
                  (Inl e, st2) \<Rightarrow> (Inl e, st2)
                | (Inr u, st2) \<Rightarrow> (Inr False, st2))))"

section \<open>PoolMaintainer: the quota inspector\<close>

text \<open>
  The dict \<^verbatim>\<open>_get_request_limit\<close> returns. A failure carries the text of its
  \<^verbatim>\<open>"error"\<close> entry: the fixed text for a missing token (a Chinese sentence in the
  source, "ID Token is missing"), the message of the first GraphQL error,
  \<^verbatim>\<open>"HTTP <status>"\<close>, or the text of a caught exception (not modelled further). A
  success carries the limit and the used count as the answer gave them, and their
  difference.
\<close>

datatype quota_error =
    Missing_ID_Token
  | GraphQL_message json
  | HTTP_status int
  | Exception_text

datatype quota_info =
    QuotaSuccess json json rat
  | QuotaFailure quota_error

text \<open>\<^verbatim>\<open>result["errors"][0].get("message", "GraphQL error")\<close>; \<open>None\<close> where it raises.\<close>

fun first_error_message :: "json \<Rightarrow> json option" where
  "first_error_message (JArr (x # xs)) = py_get x ''message'' (JStr ''GraphQL error'')"
| "first_error_message _ = None"

text \<open>
  \<^verbatim>\<open>result.get("data", {}).get("user", {}).get("user", {}).get("requestLimitInfo")\<close>;
  \<open>None\<close> where a step of the chain is applied to a value that is no dict.
\<close>

definition request_limit_info :: "json \<Rightarrow> json option" where
  "request_limit_info result =
     (case py_get result ''data'' (JObj []) of
        None \<Rightarrow> None
      | Some d \<Rightarrow>
          (case py_get d ''user'' (JObj []) of
             None \<Rightarrow> None
           | Some u \<Rightarrow>
               (case py_get u ''user'' (JObj []) of
                  None \<Rightarrow> None
                | Some uu \<Rightarrow> py_get uu ''requestLimitInfo'' JNull)))"

text \<open>The body of the branch \<^verbatim>\<open>response.status_code == 200\<close>, given the parsed body.\<close>

definition limit_of_result :: "json \<Rightarrow> quota_info" where
  "limit_of_result result =
     (case result of
        JObj kv \<Rightarrow>
          (case map_of kv ''errors'' of
             Some errs \<Rightarrow>
               (case first_error_message errs of
                  None \<Rightarrow> QuotaFailure Exception_text
                | Some m \<Rightarrow> QuotaFailure (GraphQL_message m))
           | None \<Rightarrow>
               (case request_limit_info result of
                  None \<Rightarrow> QuotaFailure Exception_text
                | Some limit_info \<Rightarrow>
                    if truthy limit_info then
                      (case (py_get limit_info ''requestLimit'' (JNum 0),
                             py_get limit_info ''requestsUsedSinceLastRefresh'' (JNum 0)) of
                         (Some request_limit, Some requests_used) \<Rightarrow>
                           (case (num_of request_limit, num_of requests_used) of
                              (Some l, Some u) \<Rightarrow> QuotaSuccess request_limit requests_used (l - u)
                            | _ \<Rightarrow> QuotaFailure Exception_text)
                       | _ \<Rightarrow> QuotaFailure Exception_text)
                    else QuotaFailure (HTTP_status 200)))
      | _ \<Rightarrow> QuotaFailure Exception_text)"

definition get_request_limit ::
  "(string \<Rightarrow> http_result) \<Rightarrow> string \<Rightarrow> pool \<Rightarrow> quota_info \<times> pool" where
  "get_request_limit post tok st =
     (if tok = [] then (QuotaFailure Missing_ID_Token, st)
      else
        let st1 = emit (QuotaPost tok) st in
        (case post tok of
           Raised \<Rightarrow> (QuotaFailure Exception_text, st1)
         | Response status_code body \<Rightarrow>
             if status_code = 200 then
               (case body of
                  None \<Rightarrow> (QuotaFailure Exception_text, st1)
                | Some result \<Rightarrow> (limit_of_result result, st1))
             else (QuotaFailure (HTTP_status status_code), st1)))"

section \<open>PoolMaintainer.verify_accounts\<close>

datatype outcome = Healthy | LowQuota | Failed

record counts =
  healthy_count :: nat
  low_quota_count :: nat
  failed_count :: nat

fun tally :: "outcome \<Rightarrow> counts \<Rightarrow> counts" where
  "tally Healthy c = c\<lparr>healthy_count := healthy_count c + 1\<rparr>"
| "tally LowQuota c = c\<lparr>low_quota_count := low_quota_count c + 1\<rparr>"
| "tally Failed c = c\<lparr>failed_count := failed_count c + 1\<rparr>"

text \<open>
  The second half of the \<^verbatim>\<open>try\<close> block: re-read the row, query the quota, act on the
  answer.
\<close>

definition quota_stage :: "world \<Rightarrow> account \<Rightarrow> pool \<Rightarrow> (exn + outcome) \<times> pool" where
  "quota_stage w a st =
     (case db_get_account_by_email (raises w GetByEmail) (email a) st of
        (Inl e, st1) \<Rightarrow> (Inl e, st1)
      | (Inr None, st1) \<Rightarrow> (Inr Failed, st1)
      | (Inr (Some current_account), st1) \<Rightarrow>
          if id_token current_account = [] then (Inr Failed, st1)
          else
            (case get_request_limit (client_post w) (id_token current_account) st1 of
               (QuotaSuccess request_limit requests_used remaining, st2) \<Rightarrow>
                 if remaining < MIN_QUOTA_THRESHOLD then
                   (case db_update_account_status (raises w UpdateStatus) (email a) ''expired'' st2 of
                      (Inl e, st3) \<Rightarrow> (Inl e, st3)
                    | (Inr u, st3) \<Rightarrow> (Inr LowQuota, st3))
                 else (Inr Healthy, st2)
             | (QuotaFailure error_msg, st2) \<Rightarrow>
                 (case db_update_account_status (raises w UpdateStatus) (email a) ''expired'' st2 of
                    (Inl e, st3) \<Rightarrow> (Inl e, st3)
                  | (Inr u, st3) \<Rightarrow> (Inr Failed, st3))))"

text \<open>The \<^verbatim>\<open>try\<close> block of one iteration; \<open>Inl\<close> is an exception leaving it.\<close>

definition try_block :: "world \<Rightarrow> account \<Rightarrow> pool \<Rightarrow> (exn + outcome) \<times> pool" where
  "try_block w a st =
     (case refresh_account_if_needed w a st of
        (Inl e, st1) \<Rightarrow> (Inl e, st1)
      | (Inr is_token_valid, st1) \<Rightarrow>
          if \<not> is_token_valid then (Inr Failed, st1)
          else quota_stage w a st1)"

text \<open>
  One iteration of the loop: the \<^verbatim>\<open>try\<close> block and its \<^verbatim>\<open>except Exception\<close>
  handler. \<open>Inl\<close> is an exception raised by the handler itself, which nothing inside
  \<^verbatim>\<open>verify_accounts\<close> catches. (The pacing \<^verbatim>\<open>asyncio.sleep(1)\<close> has no effect on the
  pool and is left out.)
\<close>

definition verify_account :: "world \<Rightarrow> account \<Rightarrow> pool \<Rightarrow> (exn + outcome) \<times> pool" where
  "verify_account w a st =
     (case try_block w a st of
        (Inr r, st1) \<Rightarrow> (Inr r, st1)
      | (Inl e, st1) \<Rightarrow>
          (case db_update_account_status (raises w HandlerUpdateStatus) (email a) ''expired'' st1 of
             (Inl e2, st2) \<Rightarrow> (Inl e2, st2)
           | (Inr u, st2) \<Rightarrow> (Inr Failed, st2)))"

fun verify_loop ::
  "(nat \<Rightarrow> world) \<Rightarrow> nat \<Rightarrow> account list \<Rightarrow> counts \<Rightarrow> pool \<Rightarrow> (exn + counts) \<times> pool" where
  "verify_loop W i [] c st = (Inr c, st)"
| "verify_loop W i (a # accounts) c st =
     (case verify_account (W i) a st of
        (Inl e, st1) \<Rightarrow> (Inl e, st1)
      | (Inr r, st1) \<Rightarrow> verify_loop W (Suc i) accounts (tally r c) st1)"

text \<open>
  What one maintenance cycle meets outside the program: whether the three statements the
  cycle itself sends raise, the world of each position of the pass, and the clock of the
  purge.
\<close>

record cycle_env =
  statistics_raises :: bool
  list_raises :: bool
  world_of :: "nat \<Rightarrow> world"
  cleanup_raises :: bool
  cleanup_now :: int

definition verify_accounts :: "cycle_env \<Rightarrow> pool \<Rightarrow> (exn + counts option) \<times> pool" where
  "verify_accounts E st =
     (let st0 = emit (DbGetAll (Some ''active'')) st in
      if list_raises E then (Inl Sqlite3Error, st0)
      else
        let accounts = get_all_accounts (Some ''active'') (rows st0) in
        if accounts = [] then (Inr None, st0)
        else
          (case verify_loop (world_of E) 0 accounts
                  \<lparr>healthy_count = 0, low_quota_count = 0, failed_count = 0\<rparr> st0 of
             (Inl e, st1) \<Rightarrow> (Inl e, st1)
           | (Inr c, st1) \<Rightarrow> (Inr (Some c), st1)))"

section \<open>PoolMaintainer: health report, purge and the maintenance loop\<close>

definition get_statistics :: "account list \<Rightarrow> string \<Rightarrow> nat option" where
  "get_statistics rs k =
     (if k = ''total'' then Some (length rs)
      else
        let n = length (filter (\<lambda>a. status a = k) rs)
        in if n = 0 then None else Some n)"

text \<open>
  \<^verbatim>\<open>check_pool_health\<close> only logs; the value kept here is the test behind its warning,
  \<^verbatim>\<open>active < MIN_POOL_SIZE\<close>.
\<close>

definition check_pool_health :: "cycle_env \<Rightarrow> pool \<Rightarrow> (exn + bool) \<times> pool" where
  "check_pool_health E st =
     (let st1 = emit DbGetStatistics st in
      if statistics_raises E then (Inl Sqlite3Error, st1)
      else
        let active = (case get_statistics (rows st1) ''active'' of None \<Rightarrow> 0 | Some n \<Rightarrow> n)
        in (Inr (active < MIN_POOL_SIZE), st1))"

definition cleanup :: "cycle_env \<Rightarrow> pool \<Rightarrow> (exn + nat) \<times> pool" where
  "cleanup E st =
     (let st1 = emit (DbCleanup 7) st in
      if cleanup_raises E then (Inl Sqlite3Error, st1)
      else
        (case cleanup_expired_accounts (cleanup_now E) 7 (rows st1) of
           (deleted, rs) \<Rightarrow> (Inr deleted, st1\<lparr>rows := rs\<rparr>)))"

text \<open>
  The \<^verbatim>\<open>try\<close> statement of one cycle. The boolean tells whether the body ran to its end
  (\<open>True\<close>) or the \<^verbatim>\<open>except Exception\<close> branch logged an exception (\<open>False\<close>).
\<close>

definition maintenance_cycle :: "cycle_env \<Rightarrow> nat \<Rightarrow> pool \<Rightarrow> bool \<times> pool" where
  "maintenance_cycle E cycle st =
     (case check_pool_health E st of
        (Inl e, st1) \<Rightarrow> (False, st1)
      | (Inr shortfall, st1) \<Rightarrow>
          (case verify_accounts E st1 of
             (Inl e, st2) \<Rightarrow> (False, st2)
           | (Inr c, st2) \<Rightarrow>
               if cycle mod 10 = 0 then
                 (case cleanup E st2 of
                    (Inl e, st3) \<Rightarrow> (False, st3)
                  | (Inr deleted, st3) \<Rightarrow> (True, st3))
               else (True, st2)))"

text \<open>
  The maintainer object: the pool it works on, its attribute \<^verbatim>\<open>running\<close>, and the record
  of what the loop itself did. The attribute is public; while the loop is suspended in an
  \<^verbatim>\<open>await\<close> (inside a cycle, or in the sleep after it) other code of the process may
  clear it. \<open>stop_during_cycle n\<close> and \<open>stop_during_sleep n\<close> tell whether that happens
  during the \<open>n\<close>-th cycle and during the sleep that follows it.
\<close>

datatype loop_event =
    CycleStart nat
  | CycleDone nat
  | CycleException nat
  | AsyncSleep int

record maintainer =
  pool_of :: pool
  running :: bool
  loop_log :: "loop_event list"

record loop_env =
  cycle_env_of :: "nat \<Rightarrow> cycle_env"
  stop_during_cycle :: "nat \<Rightarrow> bool"
  stop_during_sleep :: "nat \<Rightarrow> bool"

text \<open>From \<^verbatim>\<open>cycle += 1\<close> to the end of the \<^verbatim>\<open>try\<close> statement.\<close>

definition cycle_phase :: "loop_env \<Rightarrow> nat \<Rightarrow> maintainer \<Rightarrow> maintainer" where
  "cycle_phase L cycle m =
     (case maintenance_cycle (cycle_env_of L cycle) cycle (pool_of m) of
        (completed, st) \<Rightarrow>
          \<lparr>pool_of = st,
           running = (running m \<and> \<not> stop_during_cycle L cycle),
           loop_log = loop_log m @
             [CycleStart cycle, if completed then CycleDone cycle else CycleException cycle]\<rparr>)"

text \<open>\<^verbatim>\<open>await asyncio.sleep(config.MAINTENANCE_CHECK_INTERVAL)\<close>.\<close>

definition sleep_phase :: "loop_env \<Rightarrow> nat \<Rightarrow> maintainer \<Rightarrow> maintainer" where
  "sleep_phase L cycle m =
     m\<lparr>running := (running m \<and> \<not> stop_during_sleep L cycle),
       loop_log := loop_log m @ [AsyncSleep MAINTENANCE_CHECK_INTERVAL]\<rparr>"

text \<open>
  \<^verbatim>\<open>while self.running: ...\<close>. The loop has no bound of its own; the first argument is
  fuel, and \<open>None\<close> means the fuel ran out while the flag was still set.
\<close>

fun maintenance_loop :: "nat \<Rightarrow> loop_env \<Rightarrow> nat \<Rightarrow> maintainer \<Rightarrow> maintainer option" where
  "maintenance_loop 0 L cycle m = (if running m then None else Some m)"
| "maintenance_loop (Suc fuel) L cycle m =
     (if running m then
        maintenance_loop fuel L (cycle + 1)
          (sleep_phase L (cycle + 1) (cycle_phase L (cycle + 1) m))
      else Some m)"

section \<open>Vocabulary of the properties\<close>

text \<open>Every row of the credential \<open>e\<close> has the status \<^verbatim>\<open>expired\<close>.\<close>

definition all_expired :: "string \<Rightarrow> account list \<Rightarrow> bool" where
  "all_expired e rs = list_all (\<lambda>r. email r \<noteq> e \<or> status r = ''expired'') rs"

text \<open>
  How one row may differ before and after a piece of the verification pass that works on
  the credentials \<open>E\<close>: its identity stays; its status stays or becomes \<^verbatim>\<open>expired\<close>;
  nothing but the two tokens, the refresh time and the status differs; and a row of a
  credential outside \<open>E\<close> does not differ at all.
\<close>

definition row_evolves :: "string set \<Rightarrow> account \<Rightarrow> account \<Rightarrow> bool" where
  "row_evolves E r r' =
     (email r' = email r \<and>
      (status r' = status r \<or> status r' = ''expired'') \<and>
      row_id r' = row_id r \<and> email_password r' = email_password r \<and>
      local_id r' = local_id r \<and> created_at r' = created_at r \<and>
      last_used r' = last_used r \<and> use_count r' = use_count r \<and>
      proxy_info r' = proxy_info r \<and> user_agent r' = user_agent r \<and>
      (email r \<in> E \<or> r' = r))"

definition touches_only :: "string set \<Rightarrow> account list \<Rightarrow> account list \<Rightarrow> bool" where
  "touches_only E rs rs' = list_all2 (row_evolves E) rs rs'"

text \<open>
  The calls a verification pass over the credentials \<open>E\<close> may issue: requests to the two
  services, the listing of the active rows, reads and token writes for a credential of
  \<open>E\<close>, and status writes that set a credential of \<open>E\<close> to \<^verbatim>\<open>expired\<close>.
\<close>

fun pass_event :: "string set \<Rightarrow> event \<Rightarrow> bool" where
  "pass_event E (RefreshPost t) = True"
| "pass_event E (QuotaPost t) = True"
| "pass_event E (DbGetAll s) = (s = Some ''active'')"
| "pass_event E (DbGetByEmail e) = (e \<in> E)"
| "pass_event E (DbUpdateToken e) = (e \<in> E)"
| "pass_event E (DbUpdateStatus e s) = (e \<in> E \<and> s = ''expired'')"
| "pass_event E DbGetStatistics = False"
| "pass_event E (DbCleanup d) = False"

text \<open>The calls issued between two states of the pool.\<close>

definition new_events :: "pool \<Rightarrow> pool \<Rightarrow> event list" where
  "new_events st st' = drop (length (events st)) (events st')"

text \<open>
  A piece of the pass that works on the credentials \<open>E\<close> leads from \<open>st\<close> to \<open>st'\<close>:
  it only adds to the record of calls, adds only calls a pass over \<open>E\<close> may issue, and
  changes the rows only as such a pass may.
\<close>

definition pass_step :: "string set \<Rightarrow> pool \<Rightarrow> pool \<Rightarrow> bool" where
  "pass_step E st st' =
     (take (length (events st)) (events st') = events st \<and>
      list_all (pass_event E) (new_events st st') \<and>
      touches_only E (rows st) (rows st'))"

text \<open>
  A call that is not a status write, or is one that sets \<^verbatim>\<open>expired\<close>; and a stretch of
  the program's run, from \<open>st\<close> to \<open>st'\<close>, that issues such calls only.
\<close>

fun expiring_write :: "event \<Rightarrow> bool" where
  "expiring_write (DbUpdateStatus e s) = (s = ''expired'')"
| "expiring_write ev = True"

definition core_step :: "pool \<Rightarrow> pool \<Rightarrow> bool" where
  "core_step st st' =
     (take (length (events st)) (events st') = events st \<and>
      list_all expiring_write (new_events st st'))"

fun is_quota_post :: "event \<Rightarrow> bool" where
  "is_quota_post (QuotaPost t) = True"
| "is_quota_post _ = False"



section \<open>Concrete inputs\<close>

text \<open>
  A credential, and a decoder defined on two payload segments as they reach it (padded):
  the base64url text of \<^verbatim>\<open>{"exp":1700000000}\<close> and of \<^verbatim>\<open>{"sub":"u"}\<close>.
\<close>

definition demo_account :: account where
  "demo_account =
     \<lparr>row_id = Some 1, email = ''a@example.org'', email_password = None, local_id = ''L1'',
      id_token = ''h.eyJleHAiOjE3MDAwMDAwMDB9.s'', refresh_token = ''secret-a'',
      status = ''active'', created_at = None, last_used = None, last_refresh_time = Some 0,
      use_count = 0, proxy_info = None, user_agent = None\<rparr>"

definition demo_loads :: "string \<Rightarrow> json option" where
  "demo_loads s =
     (if s = ''eyJleHAiOjE3MDAwMDAwMDB9===='' then Some (JObj [(''exp'', JNum 1700000000)])
      else if s = ''eyJzdWIiOiJ1In0='' then Some (JObj [(''sub'', JStr ''u'')])
      else None)"

text \<open>
  The body of a quota answer with the given content of \<^verbatim>\<open>requestLimitInfo\<close>, and
  worlds for the credential above. Its token expires at 1700000000 and was obtained at
  local time 0. In \<open>cooling_world\<close> it is five minutes before the expiry and 55 minutes
  after the last refresh: the token counts as expired (ten minutes of buffer) and the
  cooldown of one hour has not passed. In \<open>refresh_world\<close> it is two hours after the last
  refresh, and the token service refuses the exchange secret.
\<close>

definition quota_body :: "json \<Rightarrow> json" where
  "quota_body info =
     JObj [(''data'', JObj [(''user'', JObj [(''__typename'', JStr ''UserOutput''),
       (''user'', JObj [(''requestLimitInfo'', info)])])])]"

definition cooling_world :: world where
  "cooling_world =
     \<lparr>loads = demo_loads, time_time = 1699999700, datetime_now = 3300000000,
      refresh_firebase_token = (\<lambda>t. (False, None, Some ''HTTP 400'')),
      datetime_now_stamp = 3300000000,
      client_post = (\<lambda>t. Response 200 (Some (quota_body
        (JObj [(''requestLimit'', JNum 150), (''requestsUsedSinceLastRefresh'', JNum 147)])))),
      raises = (\<lambda>c. False)\<rparr>"

definition refresh_world :: world where
  "refresh_world =
     cooling_world\<lparr>time_time := 1700003600, datetime_now := 7200000000,
       datetime_now_stamp := 7200000000\<rparr>"

text \<open>
  In \<open>fresh_world\<close> the token has more than half an hour left. \<open>low_quota_world\<close> and
  \<open>healthy_world\<close> differ from it in the quota answer: 9 and 10 requests remain.
\<close>

definition fresh_world :: world where
  "fresh_world = cooling_world\<lparr>time_time := 1699998000, datetime_now := 1600000000\<rparr>"

definition low_quota_world :: world where
  "low_quota_world =
     fresh_world\<lparr>client_post := (\<lambda>t. Response 200 (Some (quota_body
       (JObj [(''requestLimit'', JNum 150), (''requestsUsedSinceLastRefresh'', JNum 141)]))))\<rparr>"

definition healthy_world :: world where
  "healthy_world =
     fresh_world\<lparr>client_post := (\<lambda>t. Response 200 (Some (quota_body
       (JObj [(''requestLimit'', JNum 150), (''requestsUsedSinceLastRefresh'', JNum 140)]))))\<rparr>"

definition demo_pool :: pool where
  "demo_pool = \<lparr>rows = [demo_account], events = []\<rparr>"

text \<open>A pool with an active, an expired and a blocked credential.\<close>

definition mixed_pool :: pool where
  "mixed_pool =
     \<lparr>rows = [demo_account,
              demo_account\<lparr>row_id := Some 2, email := ''b@example.org'', status := ''expired''\<rparr>,
              demo_account\<lparr>row_id := Some 3, email := ''c@example.org'', status := ''blocked''\<rparr>],
      events = []\<rparr>"

text \<open>
  Two active credentials, and worlds in which the store fails while a credential is
  processed: in \<open>read_fails_world\<close> only the re-read of the row raises; in
  \<open>broken_store_world\<close> every statement does, the one of the exception handler included.
\<close>

definition two_pool :: pool where
  "two_pool =
     \<lparr>rows = [demo_account, demo_account\<lparr>row_id := Some 2, email := ''b@example.org''\<rparr>],
      events = []\<rparr>"

definition read_fails_world :: world where
  "read_fails_world = fresh_world\<lparr>raises := (\<lambda>c. c = GetByEmail)\<rparr>"

definition broken_store_world :: world where
  "broken_store_world = fresh_world\<lparr>raises := (\<lambda>c. True)\<rparr>"

definition demo_cycle_env :: cycle_env where
  "demo_cycle_env =
     \<lparr>statistics_raises = False, list_raises = False, world_of = (\<lambda>i. cooling_world),
      cleanup_raises = False, cleanup_now = 3300000000\<rparr>"

definition broken_cycle_env :: cycle_env where
  "broken_cycle_env = demo_cycle_env\<lparr>world_of := (\<lambda>i. broken_store_world)\<rparr>"



section \<open>Auxiliary facts\<close>

lemma replicate_pad:
  "replicate 1 c = [c]" "replicate 2 c = [c, c]" "replicate 3 c = [c, c, c]"
  "replicate 4 c = [c, c, c, c]"
  by (simp_all add: eval_nat_numeral)

lemma emit_simps [simp]:
  "rows (emit e st) = rows st" "events (emit e st) = events st @ [e]"
  by (simp_all add: emit_def)

lemma row_evolves_refl [simp]: "row_evolves E r r"
  by (simp add: row_evolves_def)

lemma row_evolves_trans:
  "row_evolves E r r' \<Longrightarrow> row_evolves E r' r'' \<Longrightarrow> row_evolves E r r''"
  unfolding row_evolves_def by auto

lemma row_evolves_mono: "E \<subseteq> F \<Longrightarrow> row_evolves E r r' \<Longrightarrow> row_evolves F r r'"
  unfolding row_evolves_def by auto

lemma touches_only_refl [simp]: "touches_only E rs rs"
  by (simp add: touches_only_def list_all2_same)

lemma touches_only_trans:
  "touches_only E rs rs' \<Longrightarrow> touches_only E rs' rs'' \<Longrightarrow> touches_only E rs rs''"
  unfolding touches_only_def
  by (rule list_all2_trans [of "row_evolves E" "row_evolves E"]) (rule row_evolves_trans)

lemma touches_only_mono: "E \<subseteq> F \<Longrightarrow> touches_only E rs rs' \<Longrightarrow> touches_only F rs rs'"
  unfolding touches_only_def
  by (erule list_all2_mono) (auto intro: row_evolves_mono)

lemma touches_only_status: "touches_only {e} rs (update_account_status e ''expired'' rs)"
  by (simp add: touches_only_def update_account_status_def list_all2_map2 list_all2_same
      row_evolves_def)

lemma touches_only_token: "touches_only {e} rs (update_account_token e tok rt now rs)"
  by (auto simp add: touches_only_def update_account_token_def list_all2_map2 list_all2_same
      row_evolves_def split: option.splits)

lemma all_expired_touches:
  "touches_only E rs rs' \<Longrightarrow> all_expired e rs \<Longrightarrow> all_expired e rs'"
  unfolding touches_only_def all_expired_def
  by (induction rule: list_all2_induct) (auto simp: row_evolves_def)


lemma pass_step_refl [simp]: "pass_step E st st"
  by (simp add: pass_step_def new_events_def)

lemma pass_stepI:
  "events st' = events st @ es \<Longrightarrow> list_all (pass_event E) es \<Longrightarrow>
   touches_only E (rows st) (rows st') \<Longrightarrow> pass_step E st st'"
  by (simp add: pass_step_def new_events_def)

lemma pass_stepD:
  "pass_step E st st' \<Longrightarrow>
   events st' = events st @ new_events st st' \<and> list_all (pass_event E) (new_events st st') \<and>
   touches_only E (rows st) (rows st')"
  unfolding pass_step_def new_events_def
  by (metis append_take_drop_id)

lemma pass_step_trans:
  assumes "pass_step E st st'" "pass_step E st' st''"
  shows "pass_step E st st''"
proof -
  from assms(1) have a: "events st' = events st @ new_events st st'"
    "list_all (pass_event E) (new_events st st')" "touches_only E (rows st) (rows st')"
    by (auto dest: pass_stepD)
  from assms(2) have b: "events st'' = events st' @ new_events st' st''"
    "list_all (pass_event E) (new_events st' st'')" "touches_only E (rows st') (rows st'')"
    by (auto dest: pass_stepD)
  show ?thesis
  proof (rule pass_stepI)
    show "events st'' = events st @ (new_events st st' @ new_events st' st'')"
      using a(1) b(1) by simp
    show "list_all (pass_event E) (new_events st st' @ new_events st' st'')"
      using a(2) b(2) by simp
    show "touches_only E (rows st) (rows st'')"
      using a(3) b(3) by (rule touches_only_trans)
  qed
qed

lemma pass_event_mono: "E \<subseteq> F \<Longrightarrow> pass_event E ev \<Longrightarrow> pass_event F ev"
  by (cases ev) auto

lemma pass_step_mono: "E \<subseteq> F \<Longrightarrow> pass_step E st st' \<Longrightarrow> pass_step F st st'"
  unfolding pass_step_def
  by (auto simp: list_all_iff intro: pass_event_mono touches_only_mono)

lemma pass_step_emit: "pass_event E ev \<Longrightarrow> pass_step E st (emit ev st)"
  by (rule pass_stepI [where es = "[ev]"]) simp_all

lemma pass_step_get_by_email:
  "db_get_account_by_email fails e st = (r, st') \<Longrightarrow> pass_step {e} st st'"
  by (auto simp: db_get_account_by_email_def Let_def pass_step_emit split: if_splits)

lemma pass_step_update_token:
  "db_update_account_token fails e tok rt now st = (r, st') \<Longrightarrow> pass_step {e} st st'"
  by (rule pass_stepI [where es = "[DbUpdateToken e]"])
     (auto simp: db_update_account_token_def Let_def touches_only_token split: if_splits)

lemma pass_step_update_status:
  "db_update_account_status fails e ''expired'' st = (r, st') \<Longrightarrow> pass_step {e} st st'"
  by (rule pass_stepI [where es = "[DbUpdateStatus e ''expired'']"])
     (auto simp: db_update_account_status_def Let_def touches_only_status split: if_splits)

lemma pass_step_request_limit:
  "get_request_limit post tok st = (r, st') \<Longrightarrow> pass_step E st st'"
  by (auto simp: get_request_limit_def Let_def pass_step_emit
      split: if_splits http_result.splits option.splits)

lemma pass_step_refresh:
  assumes "refresh_account_if_needed w a st = (r, st')"
  shows "pass_step {email a} st st'"
proof -
  have em: "pass_step {email a} st (emit (RefreshPost (refresh_token a)) st)"
    by (simp add: pass_step_emit)
  from assms show ?thesis
    unfolding refresh_account_if_needed_def Let_def
    by (auto split: if_splits prod.splits sum.splits
        intro: pass_step_trans [OF em] pass_step_update_token pass_step_update_status)
qed

lemma pass_step_quota_stage:
  assumes "quota_stage w a st = (r, st')"
  shows "pass_step {email a} st st'"
  using assms unfolding quota_stage_def
  by (auto split: if_splits prod.splits sum.splits option.splits quota_info.splits
      intro: pass_step_trans [OF pass_step_get_by_email]
             pass_step_trans [OF pass_step_get_by_email pass_step_request_limit]
             pass_step_trans [OF pass_step_get_by_email
               pass_step_trans [OF pass_step_request_limit pass_step_update_status]])

lemma pass_step_try_block:
  assumes "try_block w a st = (r, st')"
  shows "pass_step {email a} st st'"
  using assms unfolding try_block_def
  by (auto split: if_splits prod.splits sum.splits
      intro: pass_step_refresh pass_step_trans [OF pass_step_refresh pass_step_quota_stage])

lemma pass_step_verify_account:
  assumes "verify_account w a st = (r, st')"
  shows "pass_step {email a} st st'"
  using assms unfolding verify_account_def
  by (auto split: prod.splits sum.splits
      intro: pass_step_try_block pass_step_trans [OF pass_step_try_block pass_step_update_status])

lemma pass_step_verify_loop:
  "verify_loop W i accounts c st = (r, st') \<Longrightarrow> pass_step (email ` set accounts) st st'"
proof (induction accounts arbitrary: i c st)
  case Nil
  then show ?case by simp
next
  case (Cons a accounts)
  obtain r1 st1 where va: "verify_account (W i) a st = (r1, st1)"
    by (cases "verify_account (W i) a st")
  then have s1: "pass_step (email ` set (a # accounts)) st st1"
    by (auto intro: pass_step_mono [OF _ pass_step_verify_account])
  show ?case
  proof (cases r1)
    case (Inl e)
    with Cons.prems va s1 show ?thesis by simp
  next
    case (Inr oc)
    with Cons.prems va have "verify_loop W (Suc i) accounts (tally oc c) st1 = (r, st')"
      by simp
    then have "pass_step (email ` set accounts) st1 st'"
      by (rule Cons.IH)
    then have "pass_step (email ` set (a # accounts)) st1 st'"
      by (rule pass_step_mono [rotated]) auto
    with s1 show ?thesis by (rule pass_step_trans)
  qed
qed

lemma verify_loop_append:
  "verify_loop W i (xs @ ys) c st =
     (case verify_loop W i xs c st of
        (Inl e, st1) \<Rightarrow> (Inl e, st1)
      | (Inr c1, st1) \<Rightarrow> verify_loop W (i + length xs) ys c1 st1)"
  by (induction xs arbitrary: i c st) (auto split: prod.splits sum.splits)


lemma all_expired_update_status: "all_expired e (update_account_status e ''expired'' rs)"
  by (induction rs) (simp_all add: all_expired_def update_account_status_def)

lemma update_status_frame:
  "map id_token (update_account_status e s rs) = map id_token rs"
  "map refresh_token (update_account_status e s rs) = map refresh_token rs"
  "map last_refresh_time (update_account_status e s rs) = map last_refresh_time rs"
  "map (\<lambda>r. r\<lparr>status := x\<rparr>) (update_account_status e s rs) = map (\<lambda>r. r\<lparr>status := x\<rparr>) rs"
  by (simp_all add: update_account_status_def)

lemma all_expired_verify_loop:
  assumes "verify_loop W i accounts c st = (r, st')" and "all_expired e (rows st)"
  shows "all_expired e (rows st')"
proof -
  from assms(1) have "touches_only (email ` set accounts) (rows st) (rows st')"
    by (auto dest: pass_step_verify_loop simp: pass_step_def)
  then show ?thesis using assms(2) by (rule all_expired_touches)
qed

lemma verify_loop_step:
  assumes "verify_loop W i xs c st = (Inr c1, st1)"
    and "verify_account (W (i + length xs)) a st1 = (Inr oc, st2)"
  shows "verify_loop W i (xs @ a # ys) c st
      = verify_loop W (Suc (i + length xs)) ys (tally oc c1) st2"
  using assms by (simp add: verify_loop_append)

lemma verify_loop_abort:
  assumes "verify_loop W i xs c st = (Inr c1, st1)"
    and "verify_account (W (i + length xs)) a st1 = (Inl e, st2)"
  shows "verify_loop W i (xs @ a # ys) c st = (Inl e, st2)"
  using assms by (simp add: verify_loop_append)


lemma refresh_fails_result:
  assumes ex: "is_token_expired (loads w) (time_time w) (id_token a) buffer_minutes_default"
    and cr: "can_refresh_token (datetime_now w) a"
    and rf: "refresh_firebase_token w (refresh_token a) = (success, new_id_token, new_refresh_token)"
    and fail: "\<not> (success \<and> (case new_id_token of None \<Rightarrow> False | Some t \<Rightarrow> t \<noteq> []))"
  shows "refresh_account_if_needed w a st =
     (case db_update_account_status (raises w UpdateStatus) (email a) ''expired''
             (emit (RefreshPost (refresh_token a)) st) of
        (Inl e, st2) \<Rightarrow> (Inl e, st2)
      | (Inr u, st2) \<Rightarrow> (Inr False, st2))"
  using ex cr rf fail
  by (cases success) (simp_all add: refresh_account_if_needed_def Let_def)






lemma update_token_status:
  "map status (update_account_token e tok rt now rs) = map status rs"
  by (auto simp: update_account_token_def split: option.splits)


lemma refresh_valid_status:
  assumes "refresh_account_if_needed w a st = (Inr True, st')"
  shows "map status (rows st') = map status (rows st)"
  using assms
  unfolding refresh_account_if_needed_def Let_def db_update_account_token_def
    db_update_account_status_def
  by (auto split: if_splits prod.splits sum.splits simp: update_token_status)


lemma get_request_limit_effect:
  "snd (get_request_limit post tok st) = (if tok = [] then st else emit (QuotaPost tok) st)"
  by (simp add: get_request_limit_def Let_def split: http_result.splits option.splits)


lemma get_request_limit_result:
  "fst (get_request_limit post tok st) = fst (get_request_limit post tok st')"
  by (simp add: get_request_limit_def Let_def split: http_result.splits option.splits)


lemma get_request_limit_pair:
  "tok \<noteq> [] \<Longrightarrow>
   get_request_limit post tok st' =
     (fst (get_request_limit post tok st), emit (QuotaPost tok) st')"
  using get_request_limit_effect [of post tok st'] get_request_limit_result [of post tok st' st]
  by (simp add: prod_eq_iff)


lemma quota_stage_result:
  assumes "\<not> raises w GetByEmail"
    and "get_account_by_email (email a) (rows st) = Some cur"
    and "id_token cur \<noteq> []"
  shows "quota_stage w a st =
     (let st2 = emit (QuotaPost (id_token cur)) (emit (DbGetByEmail (email a)) st) in
      case fst (get_request_limit (client_post w) (id_token cur) st) of
        QuotaSuccess request_limit requests_used remaining \<Rightarrow>
          if remaining < MIN_QUOTA_THRESHOLD then
            (case db_update_account_status (raises w UpdateStatus) (email a) ''expired'' st2 of
               (Inl e, st3) \<Rightarrow> (Inl e, st3)
             | (Inr u, st3) \<Rightarrow> (Inr LowQuota, st3))
          else (Inr Healthy, st2)
      | QuotaFailure error_msg \<Rightarrow>
          (case db_update_account_status (raises w UpdateStatus) (email a) ''expired'' st2 of
             (Inl e, st3) \<Rightarrow> (Inl e, st3)
           | (Inr u, st3) \<Rightarrow> (Inr Failed, st3)))"
proof -
  have q: "get_request_limit (client_post w) (id_token cur) (emit (DbGetByEmail (email a)) st)
      = (fst (get_request_limit (client_post w) (id_token cur) st),
         emit (QuotaPost (id_token cur)) (emit (DbGetByEmail (email a)) st))"
    by (rule get_request_limit_pair) fact
  show ?thesis
    using assms
    by (simp add: quota_stage_def db_get_account_by_email_def Let_def q
        split: quota_info.splits)
qed







lemma pool_of_cycle_phase:
  "pool_of (cycle_phase L n m) = snd (maintenance_cycle (cycle_env_of L n) n (pool_of m))"
  by (simp add: cycle_phase_def split: prod.splits)

lemma sleep_phase_simps:
  "loop_log (sleep_phase L n m) = loop_log m @ [AsyncSleep MAINTENANCE_CHECK_INTERVAL]"
  "running (sleep_phase L n m) = (running m \<and> \<not> stop_during_sleep L n)"
  "pool_of (sleep_phase L n m) = pool_of m"
  by (simp_all add: sleep_phase_def)



lemma pass_step_verify_accounts:
  assumes "verify_accounts E st = (r, st')"
  shows "pass_step (email ` set (get_all_accounts (Some ''active'') (rows st))) st st'"
proof -
  let ?A = "email ` set (get_all_accounts (Some ''active'') (rows st))"
  let ?st0 = "emit (DbGetAll (Some ''active'')) st"
  have listing: "pass_step ?A st ?st0"
    by (simp add: pass_step_emit)
  show ?thesis
  proof (cases "list_raises E \<or> get_all_accounts (Some ''active'') (rows st) = []")
    case True
    with assms have "st' = ?st0"
      by (auto simp: verify_accounts_def Let_def split: if_splits)
    with listing show ?thesis by simp
  next
    case False
    obtain r1 st1 where loop: "verify_loop (world_of E) 0
        (get_all_accounts (Some ''active'') (rows st))
        \<lparr>healthy_count = 0, low_quota_count = 0, failed_count = 0\<rparr> ?st0 = (r1, st1)"
      by (cases "verify_loop (world_of E) 0 (get_all_accounts (Some ''active'') (rows st))
        \<lparr>healthy_count = 0, low_quota_count = 0, failed_count = 0\<rparr> ?st0")
    with False assms have "st' = st1"
      by (auto simp: verify_accounts_def Let_def split: sum.splits)
    moreover from loop have "pass_step ?A ?st0 st1"
      by (rule pass_step_verify_loop)
    ultimately show ?thesis
      using listing by (auto intro: pass_step_trans)
  qed
qed

lemma pass_event_expiring: "pass_event E ev \<Longrightarrow> expiring_write ev"
  by (cases ev) simp_all

lemma core_step_refl [simp]: "core_step st st"
  by (simp add: core_step_def new_events_def)

lemma core_stepI:
  "events st' = events st @ es \<Longrightarrow> list_all expiring_write es \<Longrightarrow> core_step st st'"
  by (simp add: core_step_def new_events_def)

lemma core_stepD:
  "core_step st st' \<Longrightarrow>
   events st' = events st @ new_events st st' \<and> list_all expiring_write (new_events st st')"
  unfolding core_step_def new_events_def
  by (metis append_take_drop_id)

lemma core_step_trans:
  assumes "core_step st st'" "core_step st' st''"
  shows "core_step st st''"
proof -
  from assms(1) have a: "events st' = events st @ new_events st st'"
    "list_all expiring_write (new_events st st')"
    by (auto dest: core_stepD)
  from assms(2) have b: "events st'' = events st' @ new_events st' st''"
    "list_all expiring_write (new_events st' st'')"
    by (auto dest: core_stepD)
  show ?thesis
  proof (rule core_stepI)
    show "events st'' = events st @ (new_events st st' @ new_events st' st'')"
      using a(1) b(1) by simp
    show "list_all expiring_write (new_events st st' @ new_events st' st'')"
      using a(2) b(2) by simp
  qed
qed

lemma core_step_pass: "pass_step E st st' \<Longrightarrow> core_step st st'"
  unfolding pass_step_def core_step_def
  by (auto simp: list_all_iff intro: pass_event_expiring)

lemma core_step_check_pool_health:
  "check_pool_health E st = (r, st') \<Longrightarrow> core_step st st'"
  by (rule core_stepI [where es = "[DbGetStatistics]"])
     (auto simp: check_pool_health_def Let_def split: if_splits)

lemma core_step_cleanup: "cleanup E st = (r, st') \<Longrightarrow> core_step st st'"
  by (rule core_stepI [where es = "[DbCleanup 7]"])
     (auto simp: cleanup_def Let_def split: if_splits prod.splits)

lemma core_step_maintenance_cycle:
  assumes "maintenance_cycle E n st = (ok, st')"
  shows "core_step st st'"
  using assms unfolding maintenance_cycle_def
  by (auto split: prod.splits sum.splits if_splits
      intro: core_step_check_pool_health
        core_step_trans [OF core_step_check_pool_health
          core_step_pass [OF pass_step_verify_accounts]]
        core_step_trans [OF core_step_check_pool_health
          core_step_trans [OF core_step_pass [OF pass_step_verify_accounts] core_step_cleanup]])

lemma core_step_iteration:
  "core_step (pool_of m) (pool_of (sleep_phase L n (cycle_phase L n m)))"
  unfolding sleep_phase_simps pool_of_cycle_phase
  by (rule core_step_maintenance_cycle) (rule surjective_pairing)

lemma core_step_maintenance_loop:
  "maintenance_loop fuel L cycle m = Some m' \<Longrightarrow> core_step (pool_of m) (pool_of m')"
proof (induction fuel arbitrary: cycle m)
  case 0
  then show ?case by (simp split: if_splits)
next
  case (Suc fuel)
  show ?case
  proof (cases "running m")
    case True
    with Suc.prems have "maintenance_loop fuel L (cycle + 1)
        (sleep_phase L (cycle + 1) (cycle_phase L (cycle + 1) m)) = Some m'"
      by simp
    then have "core_step (pool_of (sleep_phase L (cycle + 1) (cycle_phase L (cycle + 1) m)))
        (pool_of m')"
      by (rule Suc.IH)
    with core_step_iteration show ?thesis
      by (rule core_step_trans)
  next
    case False
    with Suc.prems show ?thesis by simp
  qed
qed

lemma expiring_writes:
  "core_step st st' \<Longrightarrow> DbUpdateStatus e s \<in> set (new_events st st') \<Longrightarrow> s = ''expired''"
  unfolding core_step_def list_all_iff by force

lemma distinct_email_inactive:
  assumes "distinct (map email rs)" "i < length rs" "status (rs ! i) \<noteq> ''active''"
  shows "email (rs ! i) \<notin> email ` {a \<in> set rs. status a = ''active''}"
proof
  assume "email (rs ! i) \<in> email ` {a \<in> set rs. status a = ''active''}"
  then obtain a where a: "a \<in> set rs" "status a = ''active''" "email a = email (rs ! i)"
    by auto
  then obtain j where j: "j < length rs" "rs ! j = a"
    by (auto simp: in_set_conv_nth)
  with assms(1,2) a(3) have "i = j"
    by (auto simp: distinct_conv_nth)
  with j a(2) assms(3) show False by simp
qed

text \<open>The concrete pass and cycle over the pool of the one credential on cooldown.\<close>

lemma demo_account_fields:
  "email demo_account = ''a@example.org''"
  "id_token demo_account = ''h.eyJleHAiOjE3MDAwMDAwMDB9.s''"
  "status demo_account = ''active''"
  by (simp_all add: demo_account_def)

lemma cooling_expired:
  "is_token_expired (loads cooling_world) (time_time cooling_world) (id_token demo_account)
     buffer_minutes_default"
  by (simp add: cooling_world_def demo_account_def is_token_expired_def demo_loads_def
      buffer_minutes_default_def replicate_pad Let_def)

lemma cooling_cooldown: "\<not> can_refresh_token (datetime_now cooling_world) demo_account"
  by (simp add: cooling_world_def demo_account_def can_refresh_token_def
      timedelta_hours_def TOKEN_REFRESH_HOURS_def)

lemma cooling_store: "\<not> raises cooling_world c"
  by (simp add: cooling_world_def)

lemma cooling_quota:
  "get_request_limit (client_post cooling_world) ''h.eyJleHAiOjE3MDAwMDAwMDB9.s'' st
     = (QuotaSuccess (JNum 150) (JNum 147) 3,
        emit (QuotaPost ''h.eyJleHAiOjE3MDAwMDAwMDB9.s'') st)"
  by (simp add: get_request_limit_def limit_of_result_def request_limit_info_def
      quota_body_def cooling_world_def Let_def)

lemma cooling_iteration:
  "verify_account cooling_world demo_account \<lparr>rows = [demo_account], events = es\<rparr> =
     (Inr LowQuota,
      \<lparr>rows = [demo_account\<lparr>status := ''expired''\<rparr>],
       events = es @ [DbGetByEmail ''a@example.org'',
                 QuotaPost ''h.eyJleHAiOjE3MDAwMDAwMDB9.s'',
                 DbUpdateStatus ''a@example.org'' ''expired'']\<rparr>)"
proof -
  have rf: "refresh_account_if_needed cooling_world demo_account st = (Inr True, st)" for st
    using cooling_expired cooling_cooldown by (simp add: refresh_account_if_needed_def)
  show ?thesis
    by (simp add: verify_account_def try_block_def rf quota_stage_def
        db_get_account_by_email_def get_account_by_email_def cooling_store Let_def
        demo_account_fields cooling_quota db_update_account_status_def
        update_account_status_def MIN_QUOTA_THRESHOLD_def emit_def)
qed

lemma cooling_pass:
  "verify_accounts demo_cycle_env \<lparr>rows = [demo_account], events = es\<rparr> =
     (Inr (Some \<lparr>healthy_count = 0, low_quota_count = 1, failed_count = 0\<rparr>),
      \<lparr>rows = [demo_account\<lparr>status := ''expired''\<rparr>],
       events = es @ [DbGetAll (Some ''active''), DbGetByEmail ''a@example.org'',
                 QuotaPost ''h.eyJleHAiOjE3MDAwMDAwMDB9.s'',
                 DbUpdateStatus ''a@example.org'' ''expired'']\<rparr>)"
  using cooling_iteration [of "es @ [DbGetAll (Some ''active'')]"]
  by (simp add: verify_accounts_def demo_cycle_env_def emit_def get_all_accounts_def Let_def
      demo_account_fields)

lemma cooling_cycle:
  "maintenance_cycle demo_cycle_env 1 demo_pool =
     (True,
      \<lparr>rows = [demo_account\<lparr>status := ''expired''\<rparr>],
       events = [DbGetStatistics, DbGetAll (Some ''active''), DbGetByEmail ''a@example.org'',
                 QuotaPost ''h.eyJleHAiOjE3MDAwMDAwMDB9.s'',
                 DbUpdateStatus ''a@example.org'' ''expired'']\<rparr>)"
proof -
  have h: "check_pool_health demo_cycle_env demo_pool
      = (Inr True, \<lparr>rows = [demo_account], events = [DbGetStatistics]\<rparr>)"
    by (simp add: check_pool_health_def demo_cycle_env_def demo_pool_def emit_def Let_def
        get_statistics_def demo_account_fields MIN_POOL_SIZE_def)
  show ?thesis
    by (simp add: maintenance_cycle_def h cooling_pass)
qed

lemma fresh_not_expired:
  "\<not> is_token_expired demo_loads 1699998000 (id_token demo_account) buffer_minutes_default"
  by (simp add: demo_account_def is_token_expired_def demo_loads_def
      buffer_minutes_default_def replicate_pad Let_def)

lemma try_block_raises_only_from_store:
  assumes "try_block w a st = (Inl e, st1)"
  shows "raises w GetByEmail \<or> raises w UpdateToken \<or> raises w UpdateStatus"
proof (rule ccontr)
  assume "\<not> (raises w GetByEmail \<or> raises w UpdateToken \<or> raises w UpdateStatus)"
  then have ok: "\<not> raises w GetByEmail" "\<not> raises w UpdateToken" "\<not> raises w UpdateStatus"
    by simp_all
  have rf: "refresh_account_if_needed w a st \<noteq> (Inl e', s)" for e' s
    using ok
    by (auto simp: refresh_account_if_needed_def db_update_account_token_def
        db_update_account_status_def Let_def split: prod.splits)
  have qs: "quota_stage w a st' \<noteq> (Inl e', s)" for e' st' s
    using ok
    by (auto simp: quota_stage_def db_get_account_by_email_def
        db_update_account_status_def Let_def split: prod.splits option.splits quota_info.splits)
  from assms rf qs show False
    unfolding try_block_def
    by (auto split: prod.splits sum.splits if_splits)
qed

text \<open>The concrete pass and cycle over two credentials with a failing store.\<close>

lemma two_pool_fields:
  "rows two_pool = [demo_account, demo_account\<lparr>row_id := Some 2, email := ''b@example.org''\<rparr>]"
  "events two_pool = []"
  "two_pool\<lparr>events := es\<rparr> = \<lparr>rows = rows two_pool, events = es\<rparr>"
  "map status (rows two_pool) = [''active'', ''active'']"
  "get_all_accounts (Some ''active'') (rows two_pool) = rows two_pool"
  by (simp_all add: two_pool_def get_all_accounts_def demo_account_def)

lemma read_fails_try_block:
  "try_block read_fails_world demo_account \<lparr>rows = rs, events = es\<rparr>
     = (Inl Sqlite3Error, \<lparr>rows = rs, events = es @ [DbGetByEmail ''a@example.org'']\<rparr>)"
proof -
  have w: "loads read_fails_world = demo_loads" "time_time read_fails_world = 1699998000"
    "raises read_fails_world GetByEmail"
    by (simp_all add: read_fails_world_def fresh_world_def cooling_world_def)
  have rf: "refresh_account_if_needed read_fails_world demo_account st = (Inr True, st)" for st
    using fresh_not_expired by (simp add: refresh_account_if_needed_def w)
  show ?thesis
    by (simp add: try_block_def rf quota_stage_def db_get_account_by_email_def w
        demo_account_fields emit_def Let_def)
qed

lemma broken_try_block:
  "try_block broken_store_world demo_account \<lparr>rows = rs, events = es\<rparr>
     = (Inl Sqlite3Error, \<lparr>rows = rs, events = es @ [DbGetByEmail ''a@example.org'']\<rparr>)"
proof -
  have w: "loads broken_store_world = demo_loads" "time_time broken_store_world = 1699998000"
    "raises broken_store_world GetByEmail"
    by (simp_all add: broken_store_world_def fresh_world_def cooling_world_def)
  have rf: "refresh_account_if_needed broken_store_world demo_account st = (Inr True, st)" for st
    using fresh_not_expired by (simp add: refresh_account_if_needed_def w)
  show ?thesis
    by (simp add: try_block_def rf quota_stage_def db_get_account_by_email_def w
        demo_account_fields emit_def Let_def)
qed

lemma broken_iteration:
  "verify_account broken_store_world demo_account \<lparr>rows = rs, events = es\<rparr>
     = (Inl Sqlite3Error,
        \<lparr>rows = rs, events = es @ [DbGetByEmail ''a@example.org'',
          DbUpdateStatus ''a@example.org'' ''expired'']\<rparr>)"
proof -
  have "raises broken_store_world HandlerUpdateStatus"
    by (simp add: broken_store_world_def)
  then show ?thesis
    by (simp add: verify_account_def broken_try_block db_update_account_status_def
        demo_account_fields emit_def Let_def)
qed

lemma broken_cycle_env_fields:
  "list_raises broken_cycle_env = False" "statistics_raises broken_cycle_env = False"
  "world_of broken_cycle_env = (\<lambda>i. broken_store_world)"
  by (simp_all add: broken_cycle_env_def demo_cycle_env_def)

lemma broken_pass:
  "verify_accounts broken_cycle_env \<lparr>rows = rows two_pool, events = es\<rparr>
     = (Inl Sqlite3Error,
        \<lparr>rows = rows two_pool,
         events = es @ [DbGetAll (Some ''active''), DbGetByEmail ''a@example.org'',
                   DbUpdateStatus ''a@example.org'' ''expired'']\<rparr>)"
  unfolding verify_accounts_def Let_def
  by (simp add: broken_cycle_env_fields emit_def two_pool_fields(5))
     (simp add: two_pool_fields(1) broken_iteration)

lemma broken_health:
  "check_pool_health broken_cycle_env two_pool
     = (Inr True, \<lparr>rows = rows two_pool, events = [DbGetStatistics]\<rparr>)"
  by (simp add: check_pool_health_def broken_cycle_env_fields emit_def Let_def
      two_pool_fields get_statistics_def demo_account_fields MIN_POOL_SIZE_def)

lemma broken_cycle:
  "maintenance_cycle broken_cycle_env 10 two_pool
     = (False,
        \<lparr>rows = rows two_pool,
         events = [DbGetStatistics, DbGetAll (Some ''active''), DbGetByEmail ''a@example.org'',
                   DbUpdateStatus ''a@example.org'' ''expired'']\<rparr>)"
  by (simp add: maintenance_cycle_def broken_health broken_pass)

section \<open>The claims\<close>










text \<open>
  Claim C4. Let a verification pass reach the credential \<open>a\<close> (the credentials \<open>xs\<close>
  before it have been processed) with an expired bearer token and no cooldown, and let the
  refresh call fail: \<^verbatim>\<open>refresh_firebase_token\<close> reports no success or returns no new
  bearer token. Provided the store accepts the status write (at the first attempt or at
  the one of the exception handler), the iteration ends as failed; the rows are those
  before with the status of the credential set to \<^verbatim>\<open>expired\<close>, so the bearer token
  and the exchange secret of every row are what they were and nothing but the status
  field differs; no quota query is sent for the credential; the pass goes on with the next
  credential; and the credential is still \<^verbatim>\<open>expired\<close> when the pass ends.
\<close>

theorem refresh_failure_expires_credential:
  "verify_loop W i xs c st = (Inr c1, st1) \<and>
   w = W (i + length xs) \<and>
   is_token_expired (loads w) (time_time w) (id_token a) buffer_minutes_default \<and>
   can_refresh_token (datetime_now w) a \<and>
   refresh_firebase_token w (refresh_token a) = (success, new_id_token, new_refresh_token) \<and>
   \<not> (success \<and> (case new_id_token of None \<Rightarrow> False | Some t \<Rightarrow> t \<noteq> [])) \<and>
   \<not> (raises w UpdateStatus \<and> raises w HandlerUpdateStatus)
   \<longrightarrow>
   (\<exists>st2. verify_account w a st1 = (Inr Failed, st2) \<and>
      rows st2 = update_account_status (email a) ''expired'' (rows st1) \<and>
      all_expired (email a) (rows st2) \<and>
      map id_token (rows st2) = map id_token (rows st1) \<and>
      map refresh_token (rows st2) = map refresh_token (rows st1) \<and>
      map (\<lambda>r. r\<lparr>status := []\<rparr>) (rows st2) = map (\<lambda>r. r\<lparr>status := []\<rparr>) (rows st1) \<and>
      \<not> list_ex is_quota_post (new_events st1 st2) \<and>
      verify_loop W i (xs @ a # ys) c st
        = verify_loop W (Suc (i + length xs)) ys (tally Failed c1) st2 \<and>
      all_expired (email a) (rows (snd (verify_loop W i (xs @ a # ys) c st))))"
proof (intro impI, elim conjE)
  assume pre: "verify_loop W i xs c st = (Inr c1, st1)"
    and w: "w = W (i + length xs)"
    and ex: "is_token_expired (loads w) (time_time w) (id_token a) buffer_minutes_default"
    and cr: "can_refresh_token (datetime_now w) a"
    and rf: "refresh_firebase_token w (refresh_token a) = (success, new_id_token, new_refresh_token)"
    and fail: "\<not> (success \<and> (case new_id_token of None \<Rightarrow> False | Some t \<Rightarrow> t \<noteq> []))"
    and db: "\<not> (raises w UpdateStatus \<and> raises w HandlerUpdateStatus)"
  let ?e = "email a"
  let ?wr = "emit (DbUpdateStatus ?e ''expired'') (emit (RefreshPost (refresh_token a)) st1)"
  define st2 where "st2 =
     (if raises w UpdateStatus
      then (emit (DbUpdateStatus ?e ''expired'') ?wr)
             \<lparr>rows := update_account_status ?e ''expired'' (rows st1)\<rparr>
      else ?wr\<lparr>rows := update_account_status ?e ''expired'' (rows st1)\<rparr>)"
  note rr = refresh_fails_result [OF ex cr rf fail, of st1]
  have va: "verify_account w a st1 = (Inr Failed, st2)"
  proof (cases "raises w UpdateStatus")
    case True
    with db have "\<not> raises w HandlerUpdateStatus" by simp
    with True rr show ?thesis
      by (simp add: verify_account_def try_block_def db_update_account_status_def Let_def
          st2_def)
  next
    case False
    with rr show ?thesis
      by (simp add: verify_account_def try_block_def db_update_account_status_def Let_def
          st2_def)
  qed
  have rows2: "rows st2 = update_account_status ?e ''expired'' (rows st1)"
    by (simp add: st2_def)
  have ev: "new_events st1 st2 =
      (if raises w UpdateStatus
       then [RefreshPost (refresh_token a), DbUpdateStatus ?e ''expired'',
             DbUpdateStatus ?e ''expired'']
       else [RefreshPost (refresh_token a), DbUpdateStatus ?e ''expired''])"
    by (simp add: st2_def new_events_def)
  then have nq: "\<not> list_ex is_quota_post (new_events st1 st2)"
    by simp
  have step: "verify_loop W i (xs @ a # ys) c st
        = verify_loop W (Suc (i + length xs)) ys (tally Failed c1) st2"
    using pre va w by (simp add: verify_loop_step)
  have ae: "all_expired ?e (rows st2)"
    by (simp add: rows2 all_expired_update_status)
  have fin: "all_expired ?e (rows (snd (verify_loop W i (xs @ a # ys) c st)))"
    unfolding step
    by (rule all_expired_verify_loop [OF _ ae]) (rule surjective_pairing)
  have frame: "map id_token (rows st2) = map id_token (rows st1)"
    "map refresh_token (rows st2) = map refresh_token (rows st1)"
    "map (\<lambda>r. r\<lparr>status := []\<rparr>) (rows st2) = map (\<lambda>r. r\<lparr>status := []\<rparr>) (rows st1)"
    unfolding rows2 by (rule update_status_frame)+
  from va rows2 ae frame nq step fin
  show "\<exists>st2. verify_account w a st1 = (Inr Failed, st2) \<and>
      rows st2 = update_account_status (email a) ''expired'' (rows st1) \<and>
      all_expired (email a) (rows st2) \<and>
      map id_token (rows st2) = map id_token (rows st1) \<and>
      map refresh_token (rows st2) = map refresh_token (rows st1) \<and>
      map (\<lambda>r. r\<lparr>status := []\<rparr>) (rows st2) = map (\<lambda>r. r\<lparr>status := []\<rparr>) (rows st1) \<and>
      \<not> list_ex is_quota_post (new_events st1 st2) \<and>
      verify_loop W i (xs @ a # ys) c st
        = verify_loop W (Suc (i + length xs)) ys (tally Failed c1) st2 \<and>
      all_expired (email a) (rows (snd (verify_loop W i (xs @ a # ys) c st)))"
    by blast
qed


theorem refresh_failure_expires_credential_witness:
  "is_token_expired (loads refresh_world) (time_time refresh_world) (id_token demo_account)
     buffer_minutes_default \<and>
   can_refresh_token (datetime_now refresh_world) demo_account \<and>
   refresh_firebase_token refresh_world (refresh_token demo_account)
     = (False, None, Some ''HTTP 400'') \<and>
   \<not> (raises refresh_world UpdateStatus \<and> raises refresh_world HandlerUpdateStatus) \<and>
   fst (verify_account refresh_world demo_account demo_pool) = Inr Failed \<and>
   all_expired (email demo_account)
     (rows (snd (verify_account refresh_world demo_account demo_pool))) \<and>
   map id_token (rows (snd (verify_account refresh_world demo_account demo_pool)))
     = map id_token (rows demo_pool)"
proof -
  have h1: "is_token_expired (loads refresh_world) (time_time refresh_world)
      (id_token demo_account) buffer_minutes_default"
    by (simp add: refresh_world_def cooling_world_def demo_account_def is_token_expired_def
        demo_loads_def buffer_minutes_default_def replicate_pad Let_def)
  have h2: "can_refresh_token (datetime_now refresh_world) demo_account"
    by (simp add: refresh_world_def cooling_world_def demo_account_def can_refresh_token_def
        timedelta_hours_def TOKEN_REFRESH_HOURS_def)
  have h3: "refresh_firebase_token refresh_world (refresh_token demo_account)
      = (False, None, Some ''HTTP 400'')"
    by (simp add: refresh_world_def cooling_world_def)
  have h4: "\<not> (raises refresh_world UpdateStatus \<and> raises refresh_world HandlerUpdateStatus)"
    by (simp add: refresh_world_def cooling_world_def)
  have h0: "verify_loop (\<lambda>i. refresh_world) 0 [] c demo_pool = (Inr c, demo_pool)" for c
    by simp
  from refresh_failure_expires_credential
    [of "\<lambda>i. refresh_world" 0 "[]" _ demo_pool _ demo_pool refresh_world demo_account
        False None "Some ''HTTP 400''" "[]"]
    h0 h1 h2 h3 h4
  obtain st2 where "verify_account refresh_world demo_account demo_pool = (Inr Failed, st2)"
    "all_expired (email demo_account) (rows st2)"
    "map id_token (rows st2) = map id_token (rows demo_pool)"
    by auto
  with h1 h2 h3 h4 show ?thesis by simp
qed

text \<open>
  Claim C5. Let a verification pass reach the credential \<open>a\<close>, let its refresh step
  report the token valid, and let the quota query for the re-read row succeed with
  \<open>remaining\<close>. If \<open>remaining\<close> is at least \<^verbatim>\<open>MIN_QUOTA_THRESHOLD\<close> (10) the credential
  is counted healthy, and the status of no row changes. If \<open>remaining\<close> is below the
  threshold (as is \<^verbatim>\<open>MIN_QUOTA_THRESHOLD - 1\<close>) and the store accepts the write, the
  status of the credential becomes \<^verbatim>\<open>expired\<close>, it is counted as low on quota, and it
  is still \<^verbatim>\<open>expired\<close> when the pass ends.
\<close>

theorem quota_threshold_disposition:
  "verify_loop W i xs c st = (Inr c1, st1) \<and>
   w = W (i + length xs) \<and>
   refresh_account_if_needed w a st1 = (Inr True, st2) \<and>
   \<not> raises w GetByEmail \<and>
   get_account_by_email (email a) (rows st2) = Some current_account \<and>
   id_token current_account \<noteq> [] \<and>
   fst (get_request_limit (client_post w) (id_token current_account) st2)
     = QuotaSuccess request_limit requests_used remaining \<and>
   st3 = emit (QuotaPost (id_token current_account)) (emit (DbGetByEmail (email a)) st2)
   \<longrightarrow>
   (MIN_QUOTA_THRESHOLD \<le> remaining \<longrightarrow>
      verify_account w a st1 = (Inr Healthy, st3) \<and>
      rows st3 = rows st2 \<and>
      map status (rows st3) = map status (rows st1) \<and>
      verify_loop W i (xs @ a # ys) c st
        = verify_loop W (Suc (i + length xs)) ys (tally Healthy c1) st3) \<and>
   (remaining < MIN_QUOTA_THRESHOLD \<and> \<not> raises w UpdateStatus \<longrightarrow>
      (\<exists>st4. verify_account w a st1 = (Inr LowQuota, st4) \<and>
         rows st4 = update_account_status (email a) ''expired'' (rows st2) \<and>
         all_expired (email a) (rows st4) \<and>
         verify_loop W i (xs @ a # ys) c st
           = verify_loop W (Suc (i + length xs)) ys (tally LowQuota c1) st4 \<and>
         all_expired (email a) (rows (snd (verify_loop W i (xs @ a # ys) c st))))) \<and>
   MIN_QUOTA_THRESHOLD = 10 \<and>
   low_quota_count (tally LowQuota c1) = low_quota_count c1 + 1 \<and>
   healthy_count (tally Healthy c1) = healthy_count c1 + 1"
proof (intro impI, elim conjE)
  assume pre: "verify_loop W i xs c st = (Inr c1, st1)"
    and w: "w = W (i + length xs)"
    and rf: "refresh_account_if_needed w a st1 = (Inr True, st2)"
    and rd: "\<not> raises w GetByEmail"
    and cur: "get_account_by_email (email a) (rows st2) = Some current_account"
    and tok: "id_token current_account \<noteq> []"
    and q: "fst (get_request_limit (client_post w) (id_token current_account) st2)
        = QuotaSuccess request_limit requests_used remaining"
    and st3: "st3 = emit (QuotaPost (id_token current_account)) (emit (DbGetByEmail (email a)) st2)"
  note qs = quota_stage_result [OF rd cur tok]
  have tb: "try_block w a st1 = quota_stage w a st2"
    using rf by (simp add: try_block_def)
  have healthy: "verify_account w a st1 = (Inr Healthy, st3) \<and>
      rows st3 = rows st2 \<and>
      map status (rows st3) = map status (rows st1) \<and>
      verify_loop W i (xs @ a # ys) c st
        = verify_loop W (Suc (i + length xs)) ys (tally Healthy c1) st3"
    if ge: "MIN_QUOTA_THRESHOLD \<le> remaining"
  proof -
    have va: "verify_account w a st1 = (Inr Healthy, st3)"
      using ge q by (simp add: verify_account_def tb qs Let_def st3)
    have r3: "rows st3 = rows st2"
      by (simp add: st3)
    have "map status (rows st3) = map status (rows st1)"
      unfolding r3 by (rule refresh_valid_status [OF rf])
    with va r3 pre w show ?thesis
      by (simp add: verify_loop_step)
  qed
  have low: "\<exists>st4. verify_account w a st1 = (Inr LowQuota, st4) \<and>
         rows st4 = update_account_status (email a) ''expired'' (rows st2) \<and>
         all_expired (email a) (rows st4) \<and>
         verify_loop W i (xs @ a # ys) c st
           = verify_loop W (Suc (i + length xs)) ys (tally LowQuota c1) st4 \<and>
         all_expired (email a) (rows (snd (verify_loop W i (xs @ a # ys) c st)))"
    if lt: "remaining < MIN_QUOTA_THRESHOLD" and wr: "\<not> raises w UpdateStatus"
  proof -
    define st4 where "st4 =
      (emit (DbUpdateStatus (email a) ''expired'') st3)
        \<lparr>rows := update_account_status (email a) ''expired'' (rows st2)\<rparr>"
    have va: "verify_account w a st1 = (Inr LowQuota, st4)"
      using lt wr q
      by (simp add: verify_account_def tb qs Let_def st3 st4_def db_update_account_status_def)
    have r4: "rows st4 = update_account_status (email a) ''expired'' (rows st2)"
      by (simp add: st4_def)
    have ae: "all_expired (email a) (rows st4)"
      by (simp add: r4 all_expired_update_status)
    have step: "verify_loop W i (xs @ a # ys) c st
           = verify_loop W (Suc (i + length xs)) ys (tally LowQuota c1) st4"
      using pre va w by (simp add: verify_loop_step)
    have fin: "all_expired (email a) (rows (snd (verify_loop W i (xs @ a # ys) c st)))"
      unfolding step
      by (rule all_expired_verify_loop [OF _ ae]) (rule surjective_pairing)
    from va r4 ae step fin show ?thesis by blast
  qed
  have cfg: "MIN_QUOTA_THRESHOLD = 10 \<and>
      low_quota_count (tally LowQuota c1) = low_quota_count c1 + 1 \<and>
      healthy_count (tally Healthy c1) = healthy_count c1 + 1"
    by (simp add: MIN_QUOTA_THRESHOLD_def)
  from healthy low cfg
  show "(MIN_QUOTA_THRESHOLD \<le> remaining \<longrightarrow>
      verify_account w a st1 = (Inr Healthy, st3) \<and>
      rows st3 = rows st2 \<and>
      map status (rows st3) = map status (rows st1) \<and>
      verify_loop W i (xs @ a # ys) c st
        = verify_loop W (Suc (i + length xs)) ys (tally Healthy c1) st3) \<and>
   (remaining < MIN_QUOTA_THRESHOLD \<and> \<not> raises w UpdateStatus \<longrightarrow>
      (\<exists>st4. verify_account w a st1 = (Inr LowQuota, st4) \<and>
         rows st4 = update_account_status (email a) ''expired'' (rows st2) \<and>
         all_expired (email a) (rows st4) \<and>
         verify_loop W i (xs @ a # ys) c st
           = verify_loop W (Suc (i + length xs)) ys (tally LowQuota c1) st4 \<and>
         all_expired (email a) (rows (snd (verify_loop W i (xs @ a # ys) c st))))) \<and>
   MIN_QUOTA_THRESHOLD = 10 \<and>
   low_quota_count (tally LowQuota c1) = low_quota_count c1 + 1 \<and>
   healthy_count (tally Healthy c1) = healthy_count c1 + 1"
    by blast
qed

theorem quota_threshold_disposition_witness:
  "refresh_account_if_needed low_quota_world demo_account demo_pool = (Inr True, demo_pool) \<and>
   refresh_account_if_needed healthy_world demo_account demo_pool = (Inr True, demo_pool) \<and>
   get_account_by_email (email demo_account) (rows demo_pool) = Some demo_account \<and>
   fst (get_request_limit (client_post low_quota_world) (id_token demo_account) demo_pool)
     = QuotaSuccess (JNum 150) (JNum 141) (MIN_QUOTA_THRESHOLD - 1) \<and>
   fst (get_request_limit (client_post healthy_world) (id_token demo_account) demo_pool)
     = QuotaSuccess (JNum 150) (JNum 140) MIN_QUOTA_THRESHOLD \<and>
   fst (verify_account low_quota_world demo_account demo_pool) = Inr LowQuota \<and>
   all_expired (email demo_account)
     (rows (snd (verify_account low_quota_world demo_account demo_pool))) \<and>
   fst (verify_account healthy_world demo_account demo_pool) = Inr Healthy \<and>
   rows (snd (verify_account healthy_world demo_account demo_pool)) = rows demo_pool"
proof -
  have fresh: "\<not> is_token_expired demo_loads 1699998000 (id_token demo_account)
      buffer_minutes_default"
    by (simp add: demo_account_def is_token_expired_def demo_loads_def
        buffer_minutes_default_def replicate_pad Let_def)
  have r1: "refresh_account_if_needed low_quota_world demo_account demo_pool
      = (Inr True, demo_pool)"
    using fresh
    by (simp add: refresh_account_if_needed_def low_quota_world_def fresh_world_def
        cooling_world_def)
  have r2: "refresh_account_if_needed healthy_world demo_account demo_pool
      = (Inr True, demo_pool)"
    using fresh
    by (simp add: refresh_account_if_needed_def healthy_world_def fresh_world_def
        cooling_world_def)
  have g: "get_account_by_email (email demo_account) (rows demo_pool) = Some demo_account"
    by (simp add: get_account_by_email_def demo_pool_def)
  have t: "id_token demo_account \<noteq> []"
    by (simp add: demo_account_def)
  have q1: "fst (get_request_limit (client_post low_quota_world) (id_token demo_account)
      demo_pool) = QuotaSuccess (JNum 150) (JNum 141) (MIN_QUOTA_THRESHOLD - 1)"
    by (simp add: get_request_limit_def limit_of_result_def request_limit_info_def
        quota_body_def low_quota_world_def demo_account_def MIN_QUOTA_THRESHOLD_def Let_def)
  have q2: "fst (get_request_limit (client_post healthy_world) (id_token demo_account)
      demo_pool) = QuotaSuccess (JNum 150) (JNum 140) MIN_QUOTA_THRESHOLD"
    by (simp add: get_request_limit_def limit_of_result_def request_limit_info_def
        quota_body_def healthy_world_def demo_account_def MIN_QUOTA_THRESHOLD_def Let_def)
  have nr1: "\<not> raises low_quota_world GetByEmail" "\<not> raises low_quota_world UpdateStatus"
    by (simp_all add: low_quota_world_def fresh_world_def cooling_world_def)
  have nr2: "\<not> raises healthy_world GetByEmail"
    by (simp add: healthy_world_def fresh_world_def cooling_world_def)
  let ?c = "\<lparr>healthy_count = 0, low_quota_count = 0, failed_count = 0\<rparr>"
  let ?st3 = "emit (QuotaPost (id_token demo_account))
     (emit (DbGetByEmail (email demo_account)) demo_pool)"
  have l0: "verify_loop W 0 [] ?c demo_pool = (Inr ?c, demo_pool)" for W
    by simp
  have lt: "MIN_QUOTA_THRESHOLD - 1 < MIN_QUOTA_THRESHOLD"
    by simp
  have pre1: "verify_loop (\<lambda>i. low_quota_world) 0 [] ?c demo_pool = (Inr ?c, demo_pool) \<and>
     low_quota_world = (\<lambda>i. low_quota_world) (0 + length ([] :: account list)) \<and>
     refresh_account_if_needed low_quota_world demo_account demo_pool = (Inr True, demo_pool) \<and>
     \<not> raises low_quota_world GetByEmail \<and>
     get_account_by_email (email demo_account) (rows demo_pool) = Some demo_account \<and>
     id_token demo_account \<noteq> [] \<and>
     fst (get_request_limit (client_post low_quota_world) (id_token demo_account) demo_pool)
       = QuotaSuccess (JNum 150) (JNum 141) (MIN_QUOTA_THRESHOLD - 1) \<and>
     ?st3 = ?st3"
    using l0 r1 g t q1 nr1 by blast
  have pre2: "verify_loop (\<lambda>i. healthy_world) 0 [] ?c demo_pool = (Inr ?c, demo_pool) \<and>
     healthy_world = (\<lambda>i. healthy_world) (0 + length ([] :: account list)) \<and>
     refresh_account_if_needed healthy_world demo_account demo_pool = (Inr True, demo_pool) \<and>
     \<not> raises healthy_world GetByEmail \<and>
     get_account_by_email (email demo_account) (rows demo_pool) = Some demo_account \<and>
     id_token demo_account \<noteq> [] \<and>
     fst (get_request_limit (client_post healthy_world) (id_token demo_account) demo_pool)
       = QuotaSuccess (JNum 150) (JNum 140) MIN_QUOTA_THRESHOLD \<and>
     ?st3 = ?st3"
    using l0 r2 g t q2 nr2 by blast
  note low_case = quota_threshold_disposition
    [of "\<lambda>i. low_quota_world" 0 "[]" ?c demo_pool ?c demo_pool low_quota_world demo_account
        demo_pool demo_account "JNum 150" "JNum 141" "MIN_QUOTA_THRESHOLD - 1" ?st3 "[]",
     THEN mp, OF pre1, THEN conjunct2, THEN conjunct1, THEN mp, OF conjI, OF lt nr1(2)]
  note healthy_case = quota_threshold_disposition
    [of "\<lambda>i. healthy_world" 0 "[]" ?c demo_pool ?c demo_pool healthy_world demo_account
        demo_pool demo_account "JNum 150" "JNum 140" MIN_QUOTA_THRESHOLD ?st3 "[]",
     THEN mp, OF pre2, THEN conjunct1, THEN mp, OF order_refl]
  from low_case obtain st4 where low:
    "verify_account low_quota_world demo_account demo_pool = (Inr LowQuota, st4)"
    "all_expired (email demo_account) (rows st4)"
    by blast
  from healthy_case have ok:
    "verify_account healthy_world demo_account demo_pool = (Inr Healthy, ?st3)"
    by blast
  have "fst (verify_account low_quota_world demo_account demo_pool) = Inr LowQuota"
    "all_expired (email demo_account)
       (rows (snd (verify_account low_quota_world demo_account demo_pool)))"
    "fst (verify_account healthy_world demo_account demo_pool) = Inr Healthy"
    "rows (snd (verify_account healthy_world demo_account demo_pool)) = rows demo_pool"
    using low ok by simp_all
  with r1 r2 g q1 q2 show ?thesis
    by blast
qed



text \<open>
  Claim C7. \<^verbatim>\<open>can_refresh_token\<close> answers yes exactly when the credential was never
  refreshed or at least \<^verbatim>\<open>TOKEN_REFRESH_HOURS\<close> hours have passed since its
  \<^verbatim>\<open>last_refresh_time\<close>. The answer does not depend on the bearer token: a credential
  refreshed less than the cooldown ago gets the answer no whatever its bearer token is,
  expired or not.
\<close>

theorem can_refresh_token_cooldown:
  "can_refresh_token now a =
     (last_refresh_time a = None \<or>
      (\<exists>t. last_refresh_time a = Some t \<and> now - t \<ge> timedelta_hours TOKEN_REFRESH_HOURS)) \<and>
   can_refresh_token now (a\<lparr>id_token := tok\<rparr>) = can_refresh_token now a \<and>
   (last_refresh_time a = Some t \<and> now - t < timedelta_hours TOKEN_REFRESH_HOURS
      \<longrightarrow> \<not> can_refresh_token now (a\<lparr>id_token := tok\<rparr>)) \<and>
   timedelta_hours TOKEN_REFRESH_HOURS = 3600000000"
  by (auto simp: can_refresh_token_def timedelta_hours_def TOKEN_REFRESH_HOURS_def
      split: option.splits)

theorem can_refresh_token_cooldown_witness:
  "last_refresh_time demo_account = Some 0 \<and>
   1800000000 - 0 < timedelta_hours TOKEN_REFRESH_HOURS \<and>
   \<not> can_refresh_token 1800000000 (demo_account\<lparr>id_token := ''no-dots-here''\<rparr>) \<and>
   \<not> can_refresh_token 1800000000 (demo_account\<lparr>id_token := ''h.eyJleHAiOjE3MDAwMDAwMDB9.s''\<rparr>) \<and>
   can_refresh_token 3600000000 demo_account"
  using can_refresh_token_cooldown [of 1800000000 demo_account "''no-dots-here''" 0]
    can_refresh_token_cooldown [of 1800000000 demo_account "''h.eyJleHAiOjE3MDAwMDAwMDB9.s''" 0]
    can_refresh_token_cooldown [of 3600000000 demo_account "''no-dots-here''" 0]
  by (simp add: demo_account_def)



text \<open>
  Claim C9. Let \<open>A\<close> be the credentials listed as \<^verbatim>\<open>active\<close> when a verification pass
  starts. Every status write of the pass sets \<^verbatim>\<open>expired\<close> and is for a credential of
  \<open>A\<close>, and so are its token writes and its reads of single rows; its only other read
  lists the \<^verbatim>\<open>active\<close> rows. The pass neither adds
  nor removes rows; a row keeps its identity, and its status stays or becomes
  \<^verbatim>\<open>expired\<close>, so no row that was not \<^verbatim>\<open>active\<close> is \<^verbatim>\<open>active\<close> afterwards; a row of
  a credential outside \<open>A\<close> is left as it was. With identities unique across the rows,
  every row that was \<^verbatim>\<open>expired\<close> or \<^verbatim>\<open>blocked\<close> (any status but \<^verbatim>\<open>active\<close>) is left as
  it was. In a whole maintenance cycle, and in any run of the maintenance loop, every
  status write sets \<^verbatim>\<open>expired\<close>.
\<close>

theorem verification_pass_only_expires_active:
  "(verify_accounts E st = (r, st') \<and>
    A = email ` {a \<in> set (rows st). status a = ''active''}
    \<longrightarrow>
    events st' = events st @ new_events st st' \<and>
    (\<forall>e s. DbUpdateStatus e s \<in> set (new_events st st') \<longrightarrow> s = ''expired'' \<and> e \<in> A) \<and>
    (\<forall>e. DbUpdateToken e \<in> set (new_events st st') \<longrightarrow> e \<in> A) \<and>
    (\<forall>e. DbGetByEmail e \<in> set (new_events st st') \<longrightarrow> e \<in> A) \<and>
    (\<forall>s. DbGetAll s \<in> set (new_events st st') \<longrightarrow> s = Some ''active'') \<and>
    length (rows st') = length (rows st) \<and>
    (\<forall>i<length (rows st).
       email (rows st' ! i) = email (rows st ! i) \<and>
       (status (rows st' ! i) = status (rows st ! i) \<or> status (rows st' ! i) = ''expired'') \<and>
       (status (rows st' ! i) = ''active'' \<longrightarrow> status (rows st ! i) = ''active'') \<and>
       (email (rows st ! i) \<notin> A \<longrightarrow> rows st' ! i = rows st ! i)) \<and>
    (distinct (map email (rows st)) \<longrightarrow>
       (\<forall>i<length (rows st). status (rows st ! i) \<noteq> ''active'' \<longrightarrow> rows st' ! i = rows st ! i))) \<and>
   (maintenance_cycle E n st = (ok, st') \<and> DbUpdateStatus e s \<in> set (new_events st st')
      \<longrightarrow> s = ''expired'') \<and>
   (maintenance_loop fuel L cycle m = Some m' \<and>
    DbUpdateStatus e s \<in> set (new_events (pool_of m) (pool_of m'))
      \<longrightarrow> s = ''expired'')"
proof (intro conjI)
  show "verify_accounts E st = (r, st') \<and>
    A = email ` {a \<in> set (rows st). status a = ''active''}
    \<longrightarrow>
    events st' = events st @ new_events st st' \<and>
    (\<forall>e s. DbUpdateStatus e s \<in> set (new_events st st') \<longrightarrow> s = ''expired'' \<and> e \<in> A) \<and>
    (\<forall>e. DbUpdateToken e \<in> set (new_events st st') \<longrightarrow> e \<in> A) \<and>
    (\<forall>e. DbGetByEmail e \<in> set (new_events st st') \<longrightarrow> e \<in> A) \<and>
    (\<forall>s. DbGetAll s \<in> set (new_events st st') \<longrightarrow> s = Some ''active'') \<and>
    length (rows st') = length (rows st) \<and>
    (\<forall>i<length (rows st).
       email (rows st' ! i) = email (rows st ! i) \<and>
       (status (rows st' ! i) = status (rows st ! i) \<or> status (rows st' ! i) = ''expired'') \<and>
       (status (rows st' ! i) = ''active'' \<longrightarrow> status (rows st ! i) = ''active'') \<and>
       (email (rows st ! i) \<notin> A \<longrightarrow> rows st' ! i = rows st ! i)) \<and>
    (distinct (map email (rows st)) \<longrightarrow>
       (\<forall>i<length (rows st). status (rows st ! i) \<noteq> ''active'' \<longrightarrow> rows st' ! i = rows st ! i))"
  proof (intro impI, elim conjE)
    assume pass: "verify_accounts E st = (r, st')"
      and A: "A = email ` {a \<in> set (rows st). status a = ''active''}"
    have listed: "email ` set (get_all_accounts (Some ''active'') (rows st)) = A"
      by (simp add: get_all_accounts_def A)
    from pass_step_verify_accounts [OF pass] have step: "pass_step A st st'"
      by (simp only: listed)
    then have ev: "events st' = events st @ new_events st st'"
      and ok: "list_all (pass_event A) (new_events st st')"
      and to: "touches_only A (rows st) (rows st')"
      by (auto dest: pass_stepD)
    from ok have writes: "\<forall>e s. DbUpdateStatus e s \<in> set (new_events st st')
        \<longrightarrow> s = ''expired'' \<and> e \<in> A"
      and tokens: "\<forall>e. DbUpdateToken e \<in> set (new_events st st') \<longrightarrow> e \<in> A"
      and reads: "\<forall>e. DbGetByEmail e \<in> set (new_events st st') \<longrightarrow> e \<in> A"
      and lists: "\<forall>s. DbGetAll s \<in> set (new_events st st') \<longrightarrow> s = Some ''active''"
      unfolding list_all_iff by force+
    from to have len: "length (rows st') = length (rows st)"
      and each: "\<And>i. i < length (rows st) \<Longrightarrow> row_evolves A (rows st ! i) (rows st' ! i)"
      by (auto simp: touches_only_def list_all2_conv_all_nth)
    have rowwise: "\<forall>i<length (rows st).
       email (rows st' ! i) = email (rows st ! i) \<and>
       (status (rows st' ! i) = status (rows st ! i) \<or> status (rows st' ! i) = ''expired'') \<and>
       (status (rows st' ! i) = ''active'' \<longrightarrow> status (rows st ! i) = ''active'') \<and>
       (email (rows st ! i) \<notin> A \<longrightarrow> rows st' ! i = rows st ! i)"
    proof (intro allI impI)
      fix i assume "i < length (rows st)"
      from each [OF this] show "email (rows st' ! i) = email (rows st ! i) \<and>
       (status (rows st' ! i) = status (rows st ! i) \<or> status (rows st' ! i) = ''expired'') \<and>
       (status (rows st' ! i) = ''active'' \<longrightarrow> status (rows st ! i) = ''active'') \<and>
       (email (rows st ! i) \<notin> A \<longrightarrow> rows st' ! i = rows st ! i)"
        by (auto simp: row_evolves_def)
    qed
    have unique: "distinct (map email (rows st)) \<longrightarrow>
       (\<forall>i<length (rows st). status (rows st ! i) \<noteq> ''active'' \<longrightarrow> rows st' ! i = rows st ! i)"
    proof (intro allI impI)
      fix i
      assume d: "distinct (map email (rows st))" and i: "i < length (rows st)"
        and s: "status (rows st ! i) \<noteq> ''active''"
      from distinct_email_inactive [OF d i s] have "email (rows st ! i) \<notin> A"
        unfolding A .
      with rowwise i show "rows st' ! i = rows st ! i"
        by blast
    qed
    from ev writes tokens reads lists len rowwise unique
    show "events st' = events st @ new_events st st' \<and>
    (\<forall>e s. DbUpdateStatus e s \<in> set (new_events st st') \<longrightarrow> s = ''expired'' \<and> e \<in> A) \<and>
    (\<forall>e. DbUpdateToken e \<in> set (new_events st st') \<longrightarrow> e \<in> A) \<and>
    (\<forall>e. DbGetByEmail e \<in> set (new_events st st') \<longrightarrow> e \<in> A) \<and>
    (\<forall>s. DbGetAll s \<in> set (new_events st st') \<longrightarrow> s = Some ''active'') \<and>
    length (rows st') = length (rows st) \<and>
    (\<forall>i<length (rows st).
       email (rows st' ! i) = email (rows st ! i) \<and>
       (status (rows st' ! i) = status (rows st ! i) \<or> status (rows st' ! i) = ''expired'') \<and>
       (status (rows st' ! i) = ''active'' \<longrightarrow> status (rows st ! i) = ''active'') \<and>
       (email (rows st ! i) \<notin> A \<longrightarrow> rows st' ! i = rows st ! i)) \<and>
    (distinct (map email (rows st)) \<longrightarrow>
       (\<forall>i<length (rows st). status (rows st ! i) \<noteq> ''active'' \<longrightarrow> rows st' ! i = rows st ! i))"
      by (intro conjI)
  qed
next
  show "maintenance_cycle E n st = (ok, st') \<and> DbUpdateStatus e s \<in> set (new_events st st')
      \<longrightarrow> s = ''expired''"
    by (auto dest: core_step_maintenance_cycle expiring_writes)
next
  show "maintenance_loop fuel L cycle m = Some m' \<and>
    DbUpdateStatus e s \<in> set (new_events (pool_of m) (pool_of m'))
      \<longrightarrow> s = ''expired''"
    by (auto dest: core_step_maintenance_loop expiring_writes)
qed

theorem verification_pass_only_expires_active_witness:
  "distinct (map email (rows mixed_pool)) \<and>
   status (rows mixed_pool ! 1) = ''expired'' \<and>
   status (rows mixed_pool ! 2) = ''blocked'' \<and>
   length (rows (snd (verify_accounts demo_cycle_env mixed_pool))) = 3 \<and>
   rows (snd (verify_accounts demo_cycle_env mixed_pool)) ! 1 = rows mixed_pool ! 1 \<and>
   rows (snd (verify_accounts demo_cycle_env mixed_pool)) ! 2 = rows mixed_pool ! 2 \<and>
   email (rows (snd (verify_accounts demo_cycle_env mixed_pool)) ! 0) = ''a@example.org'' \<and>
   DbUpdateStatus ''a@example.org'' ''expired''
     \<in> set (new_events demo_pool (snd (maintenance_cycle demo_cycle_env 1 demo_pool)))"
proof -
  let ?after = "snd (verify_accounts demo_cycle_env mixed_pool)"
  have d: "distinct (map email (rows mixed_pool))"
    by (simp add: mixed_pool_def demo_account_def)
  have s1: "status (rows mixed_pool ! 1) = ''expired''"
    and s2: "status (rows mixed_pool ! 2) = ''blocked''"
    and e0: "email (rows mixed_pool ! 0) = ''a@example.org''"
    and n: "length (rows mixed_pool) = 3"
    by (simp_all add: mixed_pool_def demo_account_def)
  note pass = verification_pass_only_expires_active
    [of demo_cycle_env mixed_pool "fst (verify_accounts demo_cycle_env mixed_pool)" ?after
        "email ` {a \<in> set (rows mixed_pool). status a = ''active''}",
     THEN conjunct1, THEN mp, OF conjI, OF surjective_pairing refl]
  from pass have len: "length (rows ?after) = length (rows mixed_pool)"
    by blast
  from pass have same: "\<forall>i<length (rows mixed_pool).
      email (rows ?after ! i) = email (rows mixed_pool ! i)"
    by blast
  from pass d have kept: "\<forall>i<length (rows mixed_pool).
      status (rows mixed_pool ! i) \<noteq> ''active'' \<longrightarrow> rows ?after ! i = rows mixed_pool ! i"
    by blast
  from kept n s1 have k1: "rows ?after ! 1 = rows mixed_pool ! 1"
    by simp
  from kept n s2 have k2: "rows ?after ! 2 = rows mixed_pool ! 2"
    by simp
  from same n e0 have k0: "email (rows ?after ! 0) = ''a@example.org''"
    by simp
  have w: "DbUpdateStatus ''a@example.org'' ''expired''
      \<in> set (new_events demo_pool (snd (maintenance_cycle demo_cycle_env 1 demo_pool)))"
  proof -
    have "events demo_pool = []"
      by (simp add: demo_pool_def)
    then show ?thesis
      unfolding cooling_cycle by (simp add: new_events_def)
  qed
  from d s1 s2 len n k1 k2 k0 w show ?thesis
    by simp
qed

text \<open>
  Claim C10 says that an exception raised while one credential is processed never ends the
  pass. The handler of the per-credential \<^verbatim>\<open>try\<close> writes to the store itself, outside
  any \<^verbatim>\<open>try\<close>; when that write raises too, the exception leaves
  \<^verbatim>\<open>verify_accounts\<close>. Below, the store stops answering while the first of two active
  credentials is processed: its status is still \<^verbatim>\<open>active\<close> afterwards, the second
  credential is never looked at, the pass ends with the exception, and the cycle (the
  tenth, which would purge) logs it and skips the purge.
\<close>

theorem handler_failure_aborts_pass_counterexample:
  "try_block broken_store_world demo_account (emit (DbGetAll (Some ''active'')) two_pool)
     = (Inl Sqlite3Error,
        \<lparr>rows = rows two_pool,
         events = [DbGetAll (Some ''active''), DbGetByEmail ''a@example.org'']\<rparr>) \<and>
   verify_accounts broken_cycle_env two_pool
     = (Inl Sqlite3Error,
        \<lparr>rows = rows two_pool,
         events = [DbGetAll (Some ''active''), DbGetByEmail ''a@example.org'',
                   DbUpdateStatus ''a@example.org'' ''expired'']\<rparr>) \<and>
   map status (rows two_pool) = [''active'', ''active''] \<and>
   maintenance_cycle broken_cycle_env 10 two_pool
     = (False,
        \<lparr>rows = rows two_pool,
         events = [DbGetStatistics, DbGetAll (Some ''active''), DbGetByEmail ''a@example.org'',
                   DbUpdateStatus ''a@example.org'' ''expired'']\<rparr>)"
proof -
  have listed: "emit (DbGetAll (Some ''active'')) two_pool
      = \<lparr>rows = rows two_pool, events = [] @ [DbGetAll (Some ''active'')]\<rparr>"
    by (simp add: emit_def two_pool_fields(2,3))
  have whole: "two_pool = \<lparr>rows = rows two_pool, events = []\<rparr>"
    by (simp add: two_pool_def)
  have t1: "try_block broken_store_world demo_account (emit (DbGetAll (Some ''active'')) two_pool)
     = (Inl Sqlite3Error,
        \<lparr>rows = rows two_pool,
         events = [DbGetAll (Some ''active''), DbGetByEmail ''a@example.org'']\<rparr>)"
    unfolding listed broken_try_block by simp
  have t2: "verify_accounts broken_cycle_env two_pool
     = (Inl Sqlite3Error,
        \<lparr>rows = rows two_pool,
         events = [DbGetAll (Some ''active''), DbGetByEmail ''a@example.org'',
                   DbUpdateStatus ''a@example.org'' ''expired'']\<rparr>)"
    using broken_pass [of "[]"] whole by simp
  from t1 t2 two_pool_fields(4) broken_cycle show ?thesis
    by blast
qed

text \<open>
  Claim C10, as the code has it. An exception leaves the \<^verbatim>\<open>try\<close> block of an iteration
  only when a statement sent to the store raises. The handler catches it and writes
  \<^verbatim>\<open>expired\<close> for the credential. When that write succeeds, the credential is
  \<^verbatim>\<open>expired\<close>, it is counted as failed, and the pass goes on with the next credential.
  When that write raises as well, the exception leaves the pass, which ends there without
  looking at the remaining credentials. The \<^verbatim>\<open>try\<close> statement of the maintenance cycle
  catches an exception that leaves the pass: the cycle ends as not completed, and the loop
  goes on to its sleep and to the next test of the running flag as after any cycle.
\<close>

theorem exception_contained_while_handler_write_succeeds:
  "(try_block w a st = (Inl e, st1) \<longrightarrow>
      (raises w GetByEmail \<or> raises w UpdateToken \<or> raises w UpdateStatus) \<and>
      (\<not> raises w HandlerUpdateStatus \<longrightarrow>
         (\<exists>st2. verify_account w a st = (Inr Failed, st2) \<and>
            rows st2 = update_account_status (email a) ''expired'' (rows st1) \<and>
            all_expired (email a) (rows st2) \<and>
            failed_count (tally Failed c) = failed_count c + 1 \<and>
            (W i = w \<longrightarrow>
               verify_loop W i (a # ys) c st = verify_loop W (Suc i) ys (tally Failed c) st2))) \<and>
      (raises w HandlerUpdateStatus \<longrightarrow>
         verify_account w a st
           = (Inl Sqlite3Error, emit (DbUpdateStatus (email a) ''expired'') st1) \<and>
         (W i = w \<longrightarrow>
            verify_loop W i (a # ys) c st
              = (Inl Sqlite3Error, emit (DbUpdateStatus (email a) ''expired'') st1)))) \<and>
   (check_pool_health E st0 = (Inr shortfall, st) \<and> verify_accounts E st = (Inl e, st')
      \<longrightarrow> maintenance_cycle E n st0 = (False, st')) \<and>
   (running m \<longrightarrow>
      maintenance_loop (Suc fuel) L cycle m
        = maintenance_loop fuel L (cycle + 1)
            (sleep_phase L (cycle + 1) (cycle_phase L (cycle + 1) m)))"
proof (intro conjI impI)
  assume "try_block w a st = (Inl e, st1)"
  then show "raises w GetByEmail \<or> raises w UpdateToken \<or> raises w UpdateStatus"
    by (rule try_block_raises_only_from_store)
next
  assume tb: "try_block w a st = (Inl e, st1)" and h: "\<not> raises w HandlerUpdateStatus"
  let ?st2 = "(emit (DbUpdateStatus (email a) ''expired'') st1)
      \<lparr>rows := update_account_status (email a) ''expired'' (rows st1)\<rparr>"
  have va: "verify_account w a st = (Inr Failed, ?st2)"
    using tb h by (simp add: verify_account_def db_update_account_status_def Let_def)
  have "rows ?st2 = update_account_status (email a) ''expired'' (rows st1)"
    by simp
  moreover have "all_expired (email a) (rows ?st2)"
    by (simp add: all_expired_update_status)
  moreover have "failed_count (tally Failed c) = failed_count c + 1"
    by simp
  moreover have "W i = w \<longrightarrow>
      verify_loop W i (a # ys) c st = verify_loop W (Suc i) ys (tally Failed c) ?st2"
    using va by simp
  ultimately show "\<exists>st2. verify_account w a st = (Inr Failed, st2) \<and>
            rows st2 = update_account_status (email a) ''expired'' (rows st1) \<and>
            all_expired (email a) (rows st2) \<and>
            failed_count (tally Failed c) = failed_count c + 1 \<and>
            (W i = w \<longrightarrow>
               verify_loop W i (a # ys) c st = verify_loop W (Suc i) ys (tally Failed c) st2)"
    using va by blast
next
  assume tb: "try_block w a st = (Inl e, st1)" and h: "raises w HandlerUpdateStatus"
  then show va: "verify_account w a st
      = (Inl Sqlite3Error, emit (DbUpdateStatus (email a) ''expired'') st1)"
    by (simp add: verify_account_def db_update_account_status_def Let_def)
  assume "W i = w"
  with va show "verify_loop W i (a # ys) c st
      = (Inl Sqlite3Error, emit (DbUpdateStatus (email a) ''expired'') st1)"
    by simp
next
  assume "check_pool_health E st0 = (Inr shortfall, st) \<and> verify_accounts E st = (Inl e, st')"
  then show "maintenance_cycle E n st0 = (False, st')"
    by (simp add: maintenance_cycle_def)
next
  assume "running m"
  then show "maintenance_loop (Suc fuel) L cycle m
      = maintenance_loop fuel L (cycle + 1)
          (sleep_phase L (cycle + 1) (cycle_phase L (cycle + 1) m))"
    by simp
qed

theorem exception_contained_while_handler_write_succeeds_witness:
  "try_block read_fails_world demo_account demo_pool
     = (Inl Sqlite3Error, \<lparr>rows = [demo_account], events = [DbGetByEmail ''a@example.org'']\<rparr>) \<and>
   raises read_fails_world GetByEmail \<and>
   \<not> raises read_fails_world HandlerUpdateStatus \<and>
   fst (verify_account read_fails_world demo_account demo_pool) = Inr Failed \<and>
   all_expired (email demo_account)
     (rows (snd (verify_account read_fails_world demo_account demo_pool))) \<and>
   try_block broken_store_world demo_account demo_pool
     = (Inl Sqlite3Error, \<lparr>rows = [demo_account], events = [DbGetByEmail ''a@example.org'']\<rparr>) \<and>
   raises broken_store_world HandlerUpdateStatus \<and>
   fst (verify_account broken_store_world demo_account demo_pool) = Inl Sqlite3Error \<and>
   fst (maintenance_cycle broken_cycle_env 10 two_pool) = False"
proof -
  let ?st1 = "\<lparr>rows = [demo_account], events = [DbGetByEmail ''a@example.org'']\<rparr>"
  have t1: "try_block read_fails_world demo_account demo_pool = (Inl Sqlite3Error, ?st1)"
    using read_fails_try_block [of "[demo_account]" "[]"] by (simp add: demo_pool_def)
  have t2: "try_block broken_store_world demo_account demo_pool = (Inl Sqlite3Error, ?st1)"
    using broken_try_block [of "[demo_account]" "[]"] by (simp add: demo_pool_def)
  have r1: "raises read_fails_world GetByEmail" "\<not> raises read_fails_world HandlerUpdateStatus"
    by (simp_all add: read_fails_world_def)
  have r2: "raises broken_store_world HandlerUpdateStatus"
    by (simp add: broken_store_world_def)
  note caught = exception_contained_while_handler_write_succeeds
    [of read_fails_world demo_account demo_pool Sqlite3Error ?st1, THEN conjunct1, THEN mp,
     OF t1, THEN conjunct2, THEN conjunct1, THEN mp, OF r1(2)]
  then obtain st2 where "verify_account read_fails_world demo_account demo_pool
      = (Inr Failed, st2)" "all_expired (email demo_account) (rows st2)"
    by blast
  then have c1: "fst (verify_account read_fails_world demo_account demo_pool) = Inr Failed"
    "all_expired (email demo_account)
       (rows (snd (verify_account read_fails_world demo_account demo_pool)))"
    by simp_all
  note escaped = exception_contained_while_handler_write_succeeds
    [of broken_store_world demo_account demo_pool Sqlite3Error ?st1, THEN conjunct1, THEN mp,
     OF t2, THEN conjunct2, THEN conjunct2, THEN mp, OF r2, THEN conjunct1]
  then have c2: "fst (verify_account broken_store_world demo_account demo_pool)
      = Inl Sqlite3Error"
    by simp
  note cyc = exception_contained_while_handler_write_succeeds
    [where E = broken_cycle_env and ?st0.0 = two_pool and e = Sqlite3Error and n = 10,
     THEN conjunct2, THEN conjunct1, THEN mp, OF conjI, OF broken_health broken_pass]
  then have c3: "fst (maintenance_cycle broken_cycle_env 10 two_pool) = False"
    by simp
  from t1 t2 r1 r2 c1 c2 c3 show ?thesis
    by blast
qed

end
